theory Spec2Isabelle
  imports Main "HOL-Library.Sublist" "HOL-Library.Word"
begin

section \<open>Documents\<close>

text \<open>
  The part of the GraphQL syntax tree that the transforms of \<^verbatim>\<open>transforms.ts\<close> read.
  A selection is a field (whose selection set is optional), a fragment spread or an
  inline fragment; a selection set is the list of its selections. A definition is an
  operation, a fragment, or any other kind (which carries no selection set that the
  transforms look at). A document is the record of its definitions.
\<close>

datatype selection =
    Field string "selection list option"
  | FragmentSpread string
  | InlineFragment "selection list"

type_synonym selectionSet = "selection list"

datatype definitionNode =
    OperationDefinition "string option" selectionSet
  | FragmentDefinition string selectionSet
  | OtherDefinition string

record document =
  definitions :: "definitionNode list"

section \<open>removeDuplicateFragments\<close>

text \<open>
  The callback of \<^verbatim>\<open>document.definitions.filter\<close> reads and updates the set
  \<^verbatim>\<open>usedName\<close>; the filter is written out as a recursion that passes the set along.
\<close>

fun filterDuplicates :: "string set \<Rightarrow> definitionNode list \<Rightarrow> definitionNode list" where
  "filterDuplicates usedName [] = []"
| "filterDuplicates usedName (FragmentDefinition name ss # defs) =
     (if name \<in> usedName then filterDuplicates usedName defs
      else FragmentDefinition name ss # filterDuplicates (insert name usedName) defs)"
| "filterDuplicates usedName (def # defs) = def # filterDuplicates usedName defs"

definition removeDuplicateFragments :: "document \<Rightarrow> document" where
  "removeDuplicateFragments document =
     document\<lparr>definitions := filterDuplicates {} (definitions document)\<rparr>"

section \<open>removeUnusedFragments\<close>

text \<open>
  \<^verbatim>\<open>traverse\<close> walks a selection set and adds the name of every fragment spread to
  the set \<^verbatim>\<open>usedFragments\<close>; \<open>visit\<close> is the body of its \<^verbatim>\<open>forEach\<close>.
  A spread is recorded; any other selection is descended into when it has a selection set.
\<close>

fun traverse :: "selectionSet \<Rightarrow> string set \<Rightarrow> string set"
  and visit :: "selection \<Rightarrow> string set \<Rightarrow> string set" where
  "traverse [] usedFragments = usedFragments"
| "traverse (selection # selections) usedFragments =
     traverse selections (visit selection usedFragments)"
| "visit (FragmentSpread name) usedFragments = insert name usedFragments"
| "visit (Field name None) usedFragments = usedFragments"
| "visit (Field name (Some selectionSet)) usedFragments = traverse selectionSet usedFragments"
| "visit (InlineFragment selectionSet) usedFragments = traverse selectionSet usedFragments"

text \<open>
  \<^verbatim>\<open>findFragmentSpreads\<close> goes through the definitions of the document and traverses the
  selection set of every operation and every fragment definition.
\<close>

fun findFragmentSpreads :: "definitionNode list \<Rightarrow> string set \<Rightarrow> string set" where
  "findFragmentSpreads [] usedFragments = usedFragments"
| "findFragmentSpreads (OperationDefinition name ss # defs) usedFragments =
     findFragmentSpreads defs (traverse ss usedFragments)"
| "findFragmentSpreads (FragmentDefinition name ss # defs) usedFragments =
     findFragmentSpreads defs (traverse ss usedFragments)"
| "findFragmentSpreads (OtherDefinition kind # defs) usedFragments =
     findFragmentSpreads defs usedFragments"

text \<open>The predicate of the filter: not a fragment definition, or a fragment whose name is used.\<close>

fun keptDefinition :: "string set \<Rightarrow> definitionNode \<Rightarrow> bool" where
  "keptDefinition usedFragments (FragmentDefinition name ss) = (name \<in> usedFragments)"
| "keptDefinition usedFragments def = True"

text \<open>One pass: collect the used names of the whole document, then filter its definitions.\<close>

definition removeUnusedPass :: "document \<Rightarrow> document" where
  "removeUnusedPass document =
     document\<lparr>definitions :=
       filter (keptDefinition (findFragmentSpreads (definitions document) {}))
         (definitions document)\<rparr>"

lemma removeUnusedPass_length:
  "length (definitions (removeUnusedPass d)) \<le> length (definitions d)"
  by (simp add: removeUnusedPass_def)

function removeUnusedFragments :: "document \<Rightarrow> document" where
  "removeUnusedFragments document =
     (let defCount = length (definitions document);
          result = removeUnusedPass document
      in if defCount \<noteq> length (definitions result)
         then removeUnusedFragments result
         else result)"
  by pat_completeness auto
termination
proof (relation "measure (\<lambda>d. length (definitions d))")
  show "wf (measure (\<lambda>d. length (definitions d)))" by simp
next
  fix document :: document and x xa
  assume "x = length (definitions document)" "xa = removeUnusedPass document"
    "x \<noteq> length (definitions xa)"
  then show "(xa, document) \<in> measure (\<lambda>d. length (definitions d))"
    using removeUnusedPass_length [of document] by simp
qed

declare removeUnusedFragments.simps [simp del]

text \<open>
  The same recursion with a bound on its depth: \<open>removeUnusedFragmentsWithin k\<close> may call
  itself at most \<open>k\<close> times, and returns \<open>None\<close> when a further call would be needed.
\<close>

fun removeUnusedFragmentsWithin :: "nat \<Rightarrow> document \<Rightarrow> document option" where
  "removeUnusedFragmentsWithin k document =
     (let defCount = length (definitions document);
          result = removeUnusedPass document
      in if defCount \<noteq> length (definitions result)
         then (case k of 0 \<Rightarrow> None | Suc j \<Rightarrow> removeUnusedFragmentsWithin j result)
         else Some result)"

declare removeUnusedFragmentsWithin.simps [simp del]

section \<open>Notions used to state the properties\<close>

text \<open>The names of the fragment definitions of a list of definitions.\<close>

fun fragmentNames :: "definitionNode list \<Rightarrow> string set" where
  "fragmentNames [] = {}"
| "fragmentNames (FragmentDefinition name ss # defs) = insert name (fragmentNames defs)"
| "fragmentNames (def # defs) = fragmentNames defs"

text \<open>
  Duplicate removal as the specification words it: the definition at position \<open>i\<close> stays
  when it is not a fragment definition, or when no fragment definition before position
  \<open>i\<close> has its name. \<open>firstOccurrences\<close> lists the definitions that stay, by position.
\<close>

definition staysFirst :: "definitionNode list \<Rightarrow> nat \<Rightarrow> bool" where
  "staysFirst defs i =
     (case defs ! i of
        FragmentDefinition name ss \<Rightarrow> name \<notin> fragmentNames (take i defs)
      | _ \<Rightarrow> True)"

definition firstOccurrences :: "definitionNode list \<Rightarrow> definitionNode list" where
  "firstOccurrences defs = map (nth defs) (filter (staysFirst defs) [0..<length defs])"

text \<open>
  A fragment name is reachable from an operation when an operation's selection set
  spreads it, or the selection set of a fragment definition with a reachable name does.
\<close>

inductive reachable :: "definitionNode list \<Rightarrow> string \<Rightarrow> bool" for defs where
  fromOperation:
    "OperationDefinition opname ss \<in> set defs \<Longrightarrow> name \<in> traverse ss {} \<Longrightarrow> reachable defs name"
| fromFragment:
    "reachable defs via \<Longrightarrow> FragmentDefinition via ss \<in> set defs \<Longrightarrow> name \<in> traverse ss {}
       \<Longrightarrow> reachable defs name"

text \<open>
  A set of fragment names whose members spread one another: each name of the set is
  spread in the selection set of a fragment definition whose own name is in the set.
\<close>

definition spreadAmong :: "string set \<Rightarrow> definitionNode list \<Rightarrow> bool" where
  "spreadAmong names defs =
     (\<forall>name \<in> names. \<exists>via ss. via \<in> names \<and> FragmentDefinition via ss \<in> set defs
        \<and> name \<in> traverse ss {})"

section \<open>Auxiliary facts about the traversal\<close>

text \<open>The spread names of a selection set, without the accumulator.\<close>

fun spreadNames :: "selectionSet \<Rightarrow> string set"
  and spreadNamesOf :: "selection \<Rightarrow> string set" where
  "spreadNames [] = {}"
| "spreadNames (s # ss) = spreadNamesOf s \<union> spreadNames ss"
| "spreadNamesOf (FragmentSpread n) = {n}"
| "spreadNamesOf (Field f None) = {}"
| "spreadNamesOf (Field f (Some ss)) = spreadNames ss"
| "spreadNamesOf (InlineFragment ss) = spreadNames ss"

fun definitionSpreads :: "definitionNode \<Rightarrow> string set" where
  "definitionSpreads (OperationDefinition name ss) = spreadNames ss"
| "definitionSpreads (FragmentDefinition name ss) = spreadNames ss"
| "definitionSpreads (OtherDefinition kind) = {}"

lemma traverse_spreadNames:
  "traverse ss U = U \<union> spreadNames ss" and "visit s U = U \<union> spreadNamesOf s"
  by (induction ss U and s U rule: traverse_visit.induct) auto

lemma findFragmentSpreads_eq:
  "findFragmentSpreads defs U = U \<union> (\<Union>def \<in> set defs. definitionSpreads def)"
proof (induction defs arbitrary: U)
  case Nil
  show ?case by simp
next
  case (Cons def defs)
  show ?case by (cases def) (auto simp: Cons.IH traverse_spreadNames)
qed

lemma findFragmentSpreads_mono:
  assumes "set defs \<subseteq> set defs'"
  shows "findFragmentSpreads defs {} \<subseteq> findFragmentSpreads defs' {}"
  using assms unfolding findFragmentSpreads_eq by blast

lemma spread_in_findFragmentSpreads:
  assumes "def \<in> set defs" and "name \<in> definitionSpreads def"
  shows "name \<in> findFragmentSpreads defs {}"
  using assms unfolding findFragmentSpreads_eq by blast

section \<open>Auxiliary facts about a pass and the recursion\<close>

lemma filter_keeps_length:
  assumes eq: "length (filter P xs) = length xs"
  shows "filter P xs = xs"
proof -
  have "length (filter P xs) + length (filter (\<lambda>x. \<not> P x) xs) = length xs"
    by (rule sum_length_filter_compl)
  with eq have "filter (\<lambda>x. \<not> P x) xs = []" by simp
  then have "\<forall>x\<in>set xs. P x" by (simp add: filter_empty_conv)
  then show ?thesis by (rule filter_True)
qed

lemma removeUnusedPass_same:
  assumes "length (definitions (removeUnusedPass d)) = length (definitions d)"
  shows "removeUnusedPass d = d"
proof -
  let ?P = "keptDefinition (findFragmentSpreads (definitions d) {})"
  from assms have "length (filter ?P (definitions d)) = length (definitions d)"
    by (simp add: removeUnusedPass_def)
  then have "filter ?P (definitions d) = definitions d" by (rule filter_keeps_length)
  then show ?thesis by (simp add: removeUnusedPass_def)
qed

lemma removeUnusedPass_subset:
  "set (definitions (removeUnusedPass d)) \<subseteq> set (definitions d)"
  by (simp add: removeUnusedPass_def)

lemma removeUnusedPass_subseq:
  "subseq (definitions (removeUnusedPass d)) (definitions d)"
  by (simp add: removeUnusedPass_def)

lemma removeUnusedPass_keeps:
  assumes "def \<in> set (definitions d)"
      and "keptDefinition (findFragmentSpreads (definitions d) {}) def"
  shows "def \<in> set (definitions (removeUnusedPass d))"
  using assms by (simp add: removeUnusedPass_def)

lemma removeUnusedFragments_stop:
  assumes "length (definitions (removeUnusedPass d)) = length (definitions d)"
  shows "removeUnusedFragments d = d"
  using assms removeUnusedPass_same [OF assms]
  by (simp add: removeUnusedFragments.simps [of d])

lemma removeUnusedFragments_again:
  assumes "length (definitions (removeUnusedPass d)) \<noteq> length (definitions d)"
  shows "removeUnusedFragments d = removeUnusedFragments (removeUnusedPass d)"
  using assms by (simp add: removeUnusedFragments.simps [of d])

lemma removeUnusedFragments_cases [case_names stop again]:
  assumes stop: "\<And>d. length (definitions (removeUnusedPass d)) = length (definitions d) \<Longrightarrow> P d"
      and again: "\<And>d. length (definitions (removeUnusedPass d)) \<noteq> length (definitions d)
                     \<Longrightarrow> P (removeUnusedPass d) \<Longrightarrow> P d"
  shows "P d"
proof (induction d rule: removeUnusedFragments.induct)
  case (1 d)
  show ?case
  proof (cases "length (definitions (removeUnusedPass d)) = length (definitions d)")
    case True
    then show ?thesis by (rule stop)
  next
    case False
    then have "P (removeUnusedPass d)" using "1.IH" [OF refl refl] by simp
    with False show ?thesis by (rule again)
  qed
qed

lemma removeUnusedFragments_subset:
  "set (definitions (removeUnusedFragments d)) \<subseteq> set (definitions d)"
proof (induction d rule: removeUnusedFragments_cases)
  case (stop d)
  then show ?case by (simp add: removeUnusedFragments_stop)
next
  case (again d)
  then show ?case
    using removeUnusedPass_subset [of d] by (simp add: removeUnusedFragments_again)
qed

lemma removeUnusedFragments_fixed:
  "removeUnusedPass (removeUnusedFragments d) = removeUnusedFragments d"
proof (induction d rule: removeUnusedFragments_cases)
  case (stop d)
  then show ?case by (simp add: removeUnusedFragments_stop removeUnusedPass_same)
next
  case (again d)
  then show ?case by (simp add: removeUnusedFragments_again)
qed

lemma removeUnusedFragments_subseq:
  "subseq (definitions (removeUnusedFragments d)) (definitions d)"
proof (induction d rule: removeUnusedFragments_cases)
  case (stop d)
  then show ?case by (simp add: removeUnusedFragments_stop)
next
  case (again d)
  have "subseq (definitions (removeUnusedFragments (removeUnusedPass d))) (definitions d)"
    using again.IH removeUnusedPass_subseq [of d] by (rule subseq_order.trans)
  with again.hyps show ?case by (simp add: removeUnusedFragments_again)
qed

lemma removeUnusedFragments_keeps_spread:
  assumes "FragmentDefinition name ss \<in> set (definitions d)"
      and "name \<in> findFragmentSpreads (definitions (removeUnusedFragments d)) {}"
  shows "FragmentDefinition name ss \<in> set (definitions (removeUnusedFragments d))"
  using assms
proof (induction d rule: removeUnusedFragments_cases)
  case (stop d)
  then show ?case by (simp add: removeUnusedFragments_stop)
next
  case (again d)
  let ?p = "removeUnusedPass d"
  have same: "removeUnusedFragments d = removeUnusedFragments ?p"
    using again.hyps by (rule removeUnusedFragments_again)
  have "set (definitions (removeUnusedFragments d)) \<subseteq> set (definitions d)"
    by (rule removeUnusedFragments_subset)
  then have "findFragmentSpreads (definitions (removeUnusedFragments d)) {}
      \<subseteq> findFragmentSpreads (definitions d) {}"
    by (rule findFragmentSpreads_mono)
  with again.prems(2) have "name \<in> findFragmentSpreads (definitions d) {}" by blast
  then have "keptDefinition (findFragmentSpreads (definitions d) {}) (FragmentDefinition name ss)"
    by simp
  with again.prems(1) have "FragmentDefinition name ss \<in> set (definitions ?p)"
    by (rule removeUnusedPass_keeps)
  moreover have "name \<in> findFragmentSpreads (definitions (removeUnusedFragments ?p)) {}"
    using again.prems(2) same by simp
  ultimately have "FragmentDefinition name ss \<in> set (definitions (removeUnusedFragments ?p))"
    by (rule again.IH)
  with same show ?case by simp
qed

lemma reachable_spread:
  assumes "reachable defs name"
  shows "name \<in> findFragmentSpreads defs {}"
  using assms
proof (cases rule: reachable.cases)
  case (fromOperation opname ss)
  then have "name \<in> definitionSpreads (OperationDefinition opname ss)"
    by (simp add: traverse_spreadNames)
  with fromOperation(1) show ?thesis by (rule spread_in_findFragmentSpreads)
next
  case (fromFragment via ss)
  then have "name \<in> definitionSpreads (FragmentDefinition via ss)"
    by (simp add: traverse_spreadNames)
  with fromFragment(2) show ?thesis by (rule spread_in_findFragmentSpreads)
qed

lemma fragmentNames_iff:
  "name \<in> fragmentNames defs \<longleftrightarrow> (\<exists>ss. FragmentDefinition name ss \<in> set defs)"
proof (induction defs)
  case Nil
  show ?case by simp
next
  case (Cons def defs)
  show ?case by (cases def) (auto simp: Cons.IH)
qed

lemma spreadAmong_pass:
  assumes among: "spreadAmong names (definitions d)"
      and def: "FragmentDefinition name ss \<in> set (definitions d)"
      and name: "name \<in> names"
  shows "FragmentDefinition name ss \<in> set (definitions (removeUnusedPass d))"
proof -
  from among name obtain via vs where
    via: "FragmentDefinition via vs \<in> set (definitions d)" "name \<in> traverse vs {}"
    unfolding spreadAmong_def by blast
  from via(2) have "name \<in> definitionSpreads (FragmentDefinition via vs)"
    by (simp add: traverse_spreadNames)
  with via(1) have "name \<in> findFragmentSpreads (definitions d) {}"
    by (rule spread_in_findFragmentSpreads)
  then have "keptDefinition (findFragmentSpreads (definitions d) {}) (FragmentDefinition name ss)"
    by simp
  with def show ?thesis by (rule removeUnusedPass_keeps)
qed

lemma spreadAmong_preserved:
  assumes among: "spreadAmong names (definitions d)"
  shows "spreadAmong names (definitions (removeUnusedPass d))"
  unfolding spreadAmong_def
proof
  fix name assume name: "name \<in> names"
  with among obtain via vs where
    via: "via \<in> names" "FragmentDefinition via vs \<in> set (definitions d)" "name \<in> traverse vs {}"
    unfolding spreadAmong_def by blast
  from among via(2) via(1)
  have "FragmentDefinition via vs \<in> set (definitions (removeUnusedPass d))"
    by (rule spreadAmong_pass)
  with via show "\<exists>via ss. via \<in> names
      \<and> FragmentDefinition via ss \<in> set (definitions (removeUnusedPass d))
      \<and> name \<in> traverse ss {}"
    by blast
qed

lemma removeUnusedFragmentsWithin_enough:
  assumes "length (definitions d) \<le> k"
  shows "removeUnusedFragmentsWithin k d = Some (removeUnusedFragments d)"
  using assms
proof (induction k arbitrary: d)
  case 0
  then have "length (definitions (removeUnusedPass d)) = length (definitions d)"
    using removeUnusedPass_length [of d] by simp
  then show ?case
    by (simp add: removeUnusedFragmentsWithin.simps [of 0 d] removeUnusedFragments_stop
        removeUnusedPass_same)
next
  case (Suc k)
  show ?case
  proof (cases "length (definitions (removeUnusedPass d)) = length (definitions d)")
    case True
    then show ?thesis
      by (simp add: removeUnusedFragmentsWithin.simps [of "Suc k" d] removeUnusedFragments_stop
          removeUnusedPass_same)
  next
    case False
    with removeUnusedPass_length [of d] Suc.prems
    have "length (definitions (removeUnusedPass d)) \<le> k" by simp
    then have "removeUnusedFragmentsWithin k (removeUnusedPass d)
        = Some (removeUnusedFragments (removeUnusedPass d))"
      by (rule Suc.IH)
    with False show ?thesis
      by (simp add: removeUnusedFragmentsWithin.simps [of "Suc k" d] removeUnusedFragments_again)
  qed
qed

text \<open>The positional reading of the duplicate filter, with the names seen so far.\<close>

definition staysGiven :: "string set \<Rightarrow> definitionNode list \<Rightarrow> nat \<Rightarrow> bool" where
  "staysGiven U defs i =
     (case defs ! i of
        FragmentDefinition name ss \<Rightarrow> name \<notin> U \<union> fragmentNames (take i defs)
      | _ \<Rightarrow> True)"

lemma staysGiven_Suc:
  "staysGiven U (def # defs) (Suc i) =
     staysGiven (case def of FragmentDefinition name ss \<Rightarrow> insert name U | _ \<Rightarrow> U) defs i"
  by (cases def) (simp_all add: staysGiven_def split: definitionNode.splits)

lemma staysGiven_0:
  "staysGiven U (def # defs) 0 =
     (case def of FragmentDefinition name ss \<Rightarrow> name \<notin> U | _ \<Rightarrow> True)"
  by (cases def) (simp_all add: staysGiven_def)

lemma staysGiven_empty: "staysGiven {} defs = staysFirst defs"
  by (rule ext) (simp add: staysGiven_def staysFirst_def cong: definitionNode.case_cong)

lemma filterDuplicates_positions:
  "filterDuplicates U defs = map (nth defs) (filter (staysGiven U defs) [0..<length defs])"
proof (induction defs arbitrary: U)
  case Nil
  show ?case by simp
next
  case (Cons def defs)
  have upt: "[0..<Suc (length defs)] = 0 # map Suc [0..<length defs]"
    by (simp add: upt_conv_Cons map_Suc_upt del: upt_Suc)
  show ?case
  proof (cases def)
    case (FragmentDefinition name ss)
    show ?thesis
    proof (cases "name \<in> U")
      case True
      then have "insert name U = U" by blast
      with True show ?thesis unfolding FragmentDefinition
        by (simp add: upt Cons.IH filter_map comp_def staysGiven_Suc staysGiven_0 del: upt_Suc)
    next
      case False
      then show ?thesis unfolding FragmentDefinition
        by (simp add: upt Cons.IH filter_map comp_def staysGiven_Suc staysGiven_0 del: upt_Suc)
    qed
  next
    case (OperationDefinition opname ss)
    show ?thesis unfolding OperationDefinition
      by (simp add: upt Cons.IH filter_map comp_def staysGiven_Suc staysGiven_0 del: upt_Suc)
  next
    case (OtherDefinition kind)
    show ?thesis unfolding OtherDefinition
      by (simp add: upt Cons.IH filter_map comp_def staysGiven_Suc staysGiven_0 del: upt_Suc)
  qed
qed

lemma filterDuplicates_subseq: "subseq (filterDuplicates U defs) defs"
  by (induction U defs rule: filterDuplicates.induct) auto

section \<open>Example documents\<close>

text \<open>
  A query that spreads \<open>a\<close>; \<open>a\<close> spreads \<open>b\<close>; \<open>c\<close> is spread only by \<open>e\<close>, which nothing
  spreads; the query also spreads \<open>z\<close>, which is defined nowhere; \<open>a\<close> is defined twice.
\<close>

definition pruneExample :: document where
  "pruneExample = \<lparr>definitions =
     [OperationDefinition (Some ''Q'') [FragmentSpread ''a'', Field ''u'' (Some [FragmentSpread ''z''])],
      FragmentDefinition ''a'' [Field ''f'' None, FragmentSpread ''b''],
      FragmentDefinition ''b'' [Field ''g'' None],
      FragmentDefinition ''c'' [Field ''h'' None],
      FragmentDefinition ''e'' [InlineFragment [FragmentSpread ''c'']],
      FragmentDefinition ''a'' [Field ''k'' None]]\<rparr>"

text \<open>
  A query without spreads, two fragments \<open>x\<close> and \<open>y\<close> that spread each other, and a
  fragment \<open>w\<close> that spreads itself.
\<close>

definition cycleExample :: document where
  "cycleExample = \<lparr>definitions =
     [OperationDefinition None [Field ''f'' None],
      FragmentDefinition ''x'' [FragmentSpread ''y''],
      FragmentDefinition ''y'' [Field ''g'' (Some [FragmentSpread ''x''])],
      FragmentDefinition ''w'' [FragmentSpread ''w'']]\<rparr>"

lemma removeUnusedFragments_pruneExample:
  "definitions (removeUnusedFragments pruneExample) =
     [OperationDefinition (Some ''Q'') [FragmentSpread ''a'', Field ''u'' (Some [FragmentSpread ''z''])],
      FragmentDefinition ''a'' [Field ''f'' None, FragmentSpread ''b''],
      FragmentDefinition ''b'' [Field ''g'' None],
      FragmentDefinition ''a'' [Field ''k'' None]]"
  by (simp add: pruneExample_def removeUnusedFragments.simps removeUnusedPass_def Let_def)

lemma removeUnusedFragments_cycleExample:
  "removeUnusedFragments cycleExample = cycleExample"
  by (simp add: cycleExample_def removeUnusedFragments.simps removeUnusedPass_def Let_def)

section \<open>Properties of the transforms\<close>

text \<open>
  C2: \<open>removeDuplicateFragments\<close> keeps, in their order, exactly the definitions that are
  not fragment definitions and, of the fragment definitions, the first one of each name;
  a fragment definition whose name an earlier fragment definition carries is dropped.
\<close>

theorem removeDuplicateFragments_firstOccurrences:
  "definitions (removeDuplicateFragments d) = firstOccurrences (definitions d)"
  by (simp add: removeDuplicateFragments_def firstOccurrences_def filterDuplicates_positions
      staysGiven_empty)

theorem removeDuplicateFragments_firstOccurrences_witness:
  "definitions (removeDuplicateFragments pruneExample) =
     [OperationDefinition (Some ''Q'') [FragmentSpread ''a'', Field ''u'' (Some [FragmentSpread ''z''])],
      FragmentDefinition ''a'' [Field ''f'' None, FragmentSpread ''b''],
      FragmentDefinition ''b'' [Field ''g'' None],
      FragmentDefinition ''c'' [Field ''h'' None],
      FragmentDefinition ''e'' [InlineFragment [FragmentSpread ''c'']]]"
  unfolding removeDuplicateFragments_firstOccurrences [of pruneExample]
  by (simp add: pruneExample_def firstOccurrences_def staysFirst_def upt_conv_Cons)

text \<open>
  C3: in the pruned document, every fragment name that is reachable from an operation
  has a fragment definition in the pruned document, unless the original document had no
  fragment definition of that name; moreover each of the original document's fragment
  definitions of a reachable name is still there.
\<close>

theorem removeUnusedFragments_reachable_resolves:
  assumes "reachable (definitions (removeUnusedFragments d)) name"
  shows "(name \<in> fragmentNames (definitions (removeUnusedFragments d))
            \<or> name \<notin> fragmentNames (definitions d))
       \<and> (\<forall>ss. FragmentDefinition name ss \<in> set (definitions d)
              \<longrightarrow> FragmentDefinition name ss \<in> set (definitions (removeUnusedFragments d)))"
proof -
  from assms have used: "name \<in> findFragmentSpreads (definitions (removeUnusedFragments d)) {}"
    by (rule reachable_spread)
  have kept: "FragmentDefinition name ss \<in> set (definitions (removeUnusedFragments d))"
    if "FragmentDefinition name ss \<in> set (definitions d)" for ss
    using that used by (rule removeUnusedFragments_keeps_spread)
  then show ?thesis unfolding fragmentNames_iff by blast
qed

theorem removeUnusedFragments_reachable_resolves_witness:
  "reachable (definitions (removeUnusedFragments pruneExample)) ''b''
   \<and> ''b'' \<in> fragmentNames (definitions (removeUnusedFragments pruneExample))
   \<and> FragmentDefinition ''b'' [Field ''g'' None] \<in> set (definitions pruneExample)
   \<and> FragmentDefinition ''b'' [Field ''g'' None]
        \<in> set (definitions (removeUnusedFragments pruneExample))
   \<and> reachable (definitions (removeUnusedFragments pruneExample)) ''z''
   \<and> ''z'' \<notin> fragmentNames (definitions pruneExample)"
proof -
  let ?r = "definitions (removeUnusedFragments pruneExample)"
  have a: "reachable ?r ''a''"
    by (rule fromOperation [where opname = "Some ''Q''"
          and ss = "[FragmentSpread ''a'', Field ''u'' (Some [FragmentSpread ''z''])]"])
       (simp_all add: removeUnusedFragments_pruneExample)
  have z: "reachable ?r ''z''"
    by (rule fromOperation [where opname = "Some ''Q''"
          and ss = "[FragmentSpread ''a'', Field ''u'' (Some [FragmentSpread ''z''])]"])
       (simp_all add: removeUnusedFragments_pruneExample)
  have b: "reachable ?r ''b''"
    by (rule fromFragment [OF a, where ss = "[Field ''f'' None, FragmentSpread ''b'']"])
       (simp_all add: removeUnusedFragments_pruneExample)
  have orig: "FragmentDefinition ''b'' [Field ''g'' None] \<in> set (definitions pruneExample)"
    by (simp add: pruneExample_def)
  have undefined_z: "''z'' \<notin> fragmentNames (definitions pruneExample)"
    by (simp add: pruneExample_def)
  from removeUnusedFragments_reachable_resolves [OF b] orig undefined_z
  have "''b'' \<in> fragmentNames ?r" and "FragmentDefinition ''b'' [Field ''g'' None] \<in> set ?r"
    by (simp_all add: pruneExample_def)
  with b z orig undefined_z show ?thesis by simp
qed

text \<open>
  C5: pruning a pruned document changes nothing; a pass over the pruned document removes
  no definition; and the recursion returns its argument exactly when the first pass
  removes no definition.
\<close>

theorem removeUnusedFragments_idempotent:
  "removeUnusedFragments (removeUnusedFragments d) = removeUnusedFragments d
   \<and> length (definitions (removeUnusedPass (removeUnusedFragments d)))
       = length (definitions (removeUnusedFragments d))
   \<and> (removeUnusedFragments d = d)
       = (length (definitions (removeUnusedPass d)) = length (definitions d))"
proof -
  let ?r = "removeUnusedFragments d"
  have fixed: "removeUnusedPass ?r = ?r" by (rule removeUnusedFragments_fixed)
  then have len: "length (definitions (removeUnusedPass ?r)) = length (definitions ?r)"
    by simp
  then have idem: "removeUnusedFragments ?r = ?r" by (rule removeUnusedFragments_stop)
  have "length (definitions (removeUnusedPass d)) = length (definitions d)"
    if "removeUnusedFragments d = d"
    using fixed that by simp
  then have "(removeUnusedFragments d = d)
      = (length (definitions (removeUnusedPass d)) = length (definitions d))"
    using removeUnusedFragments_stop [of d] by blast
  with idem len show ?thesis by simp
qed

theorem removeUnusedFragments_idempotent_witness:
  "removeUnusedFragments (removeUnusedFragments pruneExample) = removeUnusedFragments pruneExample
   \<and> length (definitions (removeUnusedFragments pruneExample)) = 4
   \<and> removeUnusedFragments pruneExample \<noteq> pruneExample"
proof -
  have "length (definitions (removeUnusedFragments pruneExample)) = 4"
    by (simp add: removeUnusedFragments_pruneExample)
  moreover have "length (definitions pruneExample) = 6"
    by (simp add: pruneExample_def)
  ultimately show ?thesis
    using removeUnusedFragments_idempotent [of pruneExample] by auto
qed

text \<open>C6: the pruned document has at most as many definitions as the original one.\<close>

theorem removeUnusedFragments_shrinks:
  "length (definitions (removeUnusedFragments d)) \<le> length (definitions d)"
  using removeUnusedFragments_subseq [of d] by (rule list_emb_length)

theorem removeUnusedFragments_shrinks_witness:
  "length (definitions (removeUnusedFragments pruneExample)) \<le> 6"
  using removeUnusedFragments_shrinks [of pruneExample] by (simp add: pruneExample_def)

text \<open>
  C7: the definitions of the deduplicated document, and those of the pruned document,
  form a subsequence of the definitions of the original document.
\<close>

theorem transforms_preserve_order:
  "subseq (definitions (removeDuplicateFragments d)) (definitions d)
   \<and> subseq (definitions (removeUnusedFragments d)) (definitions d)"
  by (simp add: removeDuplicateFragments_def filterDuplicates_subseq removeUnusedFragments_subseq)

theorem transforms_preserve_order_witness:
  "subseq (definitions (removeDuplicateFragments cycleExample)) (definitions cycleExample)
   \<and> subseq (definitions (removeUnusedFragments pruneExample)) (definitions pruneExample)"
  by (rule conjI)
     (rule transforms_preserve_order [THEN conjunct1],
      rule transforms_preserve_order [THEN conjunct2])

text \<open>
  C8: a pass that changes the number of definitions lowers it, and the recursion needs
  at most as many recursive calls as the document has definitions: bounded to that depth
  it returns, with the result of \<open>removeUnusedFragments\<close>.
\<close>

theorem removeUnusedFragments_terminates:
  "removeUnusedFragmentsWithin (length (definitions d)) d = Some (removeUnusedFragments d)
   \<and> (length (definitions (removeUnusedPass d)) \<noteq> length (definitions d)
       \<longrightarrow> length (definitions (removeUnusedPass d)) < length (definitions d))"
  using removeUnusedFragmentsWithin_enough [of d "length (definitions d)"]
    removeUnusedPass_length [of d]
  by simp

theorem removeUnusedFragments_terminates_witness:
  "removeUnusedFragmentsWithin 6 pruneExample = Some (removeUnusedFragments pruneExample)
   \<and> length (definitions (removeUnusedPass pruneExample)) = 5
   \<and> length (definitions pruneExample) = 6"
proof -
  have six: "length (definitions pruneExample) = 6" by (simp add: pruneExample_def)
  have five: "length (definitions (removeUnusedPass pruneExample)) = 5"
    by (simp add: pruneExample_def removeUnusedPass_def)
  from removeUnusedFragments_terminates [of pruneExample] six five
  show ?thesis by simp
qed

text \<open>
  C10: when the names of a set are spread by fragment definitions whose own names are
  in the set (fragments that spread one another, or a fragment that spreads itself),
  every fragment definition with a name of the set is still in the pruned document,
  whether or not an operation reaches it.
\<close>

theorem removeUnusedFragments_keeps_cycles:
  assumes "spreadAmong names (definitions d)"
      and "FragmentDefinition name ss \<in> set (definitions d)"
      and "name \<in> names"
  shows "FragmentDefinition name ss \<in> set (definitions (removeUnusedFragments d))"
  using assms
proof (induction d rule: removeUnusedFragments_cases)
  case (stop d)
  then show ?case by (simp add: removeUnusedFragments_stop)
next
  case (again d)
  have "spreadAmong names (definitions (removeUnusedPass d))"
    using again.prems(1) by (rule spreadAmong_preserved)
  moreover have "FragmentDefinition name ss \<in> set (definitions (removeUnusedPass d))"
    using again.prems by (rule spreadAmong_pass)
  ultimately have "FragmentDefinition name ss
      \<in> set (definitions (removeUnusedFragments (removeUnusedPass d)))"
    using again.prems(3) by (rule again.IH)
  with again.hyps show ?case by (simp add: removeUnusedFragments_again)
qed

lemma cycleExample_unreachable: "\<not> reachable (definitions cycleExample) name"
proof
  assume "reachable (definitions cycleExample) name"
  then show False
    by (induction rule: reachable.induct) (auto simp: cycleExample_def)
qed

theorem removeUnusedFragments_keeps_cycles_witness:
  "spreadAmong {''x'', ''y'', ''w''} (definitions cycleExample)
   \<and> \<not> reachable (definitions cycleExample) ''x''
   \<and> \<not> reachable (definitions cycleExample) ''w''
   \<and> FragmentDefinition ''x'' [FragmentSpread ''y'']
        \<in> set (definitions (removeUnusedFragments cycleExample))
   \<and> FragmentDefinition ''w'' [FragmentSpread ''w'']
        \<in> set (definitions (removeUnusedFragments cycleExample))"
proof -
  have among: "spreadAmong {''x'', ''y'', ''w''} (definitions cycleExample)"
    unfolding spreadAmong_def
  proof
    fix name :: string
    assume "name \<in> {''x'', ''y'', ''w''}"
    then consider "name = ''x''" | "name = ''y''" | "name = ''w''" by blast
    then show "\<exists>via ss. via \<in> {''x'', ''y'', ''w''}
        \<and> FragmentDefinition via ss \<in> set (definitions cycleExample)
        \<and> name \<in> traverse ss {}"
    proof cases
      case 1
      then show ?thesis
        by (intro exI [of _ "''y''"] exI [of _ "[Field ''g'' (Some [FragmentSpread ''x''])]"])
           (simp add: cycleExample_def)
    next
      case 2
      then show ?thesis
        by (intro exI [of _ "''x''"] exI [of _ "[FragmentSpread ''y'']"])
           (simp add: cycleExample_def)
    next
      case 3
      then show ?thesis
        by (intro exI [of _ "''w''"] exI [of _ "[FragmentSpread ''w'']"])
           (simp add: cycleExample_def)
    qed
  qed
  have x: "FragmentDefinition ''x'' [FragmentSpread ''y''] \<in> set (definitions cycleExample)"
    by (simp add: cycleExample_def)
  have w: "FragmentDefinition ''w'' [FragmentSpread ''w''] \<in> set (definitions cycleExample)"
    by (simp add: cycleExample_def)
  have "FragmentDefinition ''x'' [FragmentSpread ''y'']
      \<in> set (definitions (removeUnusedFragments cycleExample))"
    using among x by (rule removeUnusedFragments_keeps_cycles) simp
  moreover have "FragmentDefinition ''w'' [FragmentSpread ''w'']
      \<in> set (definitions (removeUnusedFragments cycleExample))"
    using among w by (rule removeUnusedFragments_keeps_cycles) simp
  ultimately show ?thesis
    using among cycleExample_unreachable by simp
qed

section \<open>Import expansion\<close>

text \<open>
  A text that the loader inspects (a source, a path) is a JavaScript string: a list of
  16-bit code units. \<open>ascii\<close> writes such a text from its ASCII characters. Texts that
  the loader only passes on (names in documents, printed output, messages) are kept as
  lists of characters.
\<close>

type_synonym codeUnit = "16 word"

type_synonym jsString = "codeUnit list"

definition ascii :: "string \<Rightarrow> jsString" where
  "ascii text = map (\<lambda>c. of_nat (of_char c)) text"

text \<open>
  The failures of \<^verbatim>\<open>loader.ts\<close> are values:
  \<open>SyntaxError\<close> is thrown by the parser, \<open>ImportSyntaxError\<close> is the error
  \<^verbatim>\<open>#import statement must specify a quoted file path\<close>, \<open>ImportResolutionError\<close>,
  \<open>ReadError\<close> and \<open>StatError\<close> are the errors that the callbacks of \<^verbatim>\<open>loader.resolve\<close>,
  \<^verbatim>\<open>fs.readFile\<close> and \<^verbatim>\<open>fs.stat\<close> receive, \<open>SchemaNotFound\<close> is the error of
  \<^verbatim>\<open>findFileInTree\<close>, \<open>InvalidSchema\<close> a throw of \<^verbatim>\<open>JSON.parse\<close> or
  \<^verbatim>\<open>buildClientSchema\<close>, \<open>SchemaOptionMissing\<close> the error
  \<^verbatim>\<open>schema option must be passed if validate is true\<close>, and \<open>NoAsyncCallback\<close> the error
  \<^verbatim>\<open>Loader does not support synchronous processing\<close>. \<open>NullRejection\<close> is the rejection
  with no error at all: \<^verbatim>\<open>reject(err)\<close> where a callback has received neither an error
  nor a usable result.
\<close>

datatype error =
    SyntaxError
  | ImportSyntaxError
  | ImportResolutionError
  | ReadError
  | StatError
  | SchemaNotFound
  | InvalidSchema
  | SchemaOptionMissing
  | NoAsyncCallback
  | NullRejection

text \<open>
  What a callback of the loader context receives: an error, or neither an error nor a
  usable result (a result that is undefined, or for \<^verbatim>\<open>resolve\<close> one that is not a
  string), or a result.
\<close>

datatype 'a callback = WithError | WithNothing | WithResult 'a

datatype graphQLSchema = GraphQLSchema jsString

type_synonym graphQLError = string

record stats =
  isFile :: bool
  mtime :: int

record graphQLLoaderOptions =
  schema :: "jsString option"
  validate :: bool
  removeUnusedFragmentsOption :: bool
  minify :: bool
  emitDefaultExport :: bool

text \<open>
  What the loader is given from outside: the functions of the \<^verbatim>\<open>graphql\<close> package
  (\<open>None\<close> where they throw), \<^verbatim>\<open>JSON.stringify\<close>, the module \<^verbatim>\<open>path\<close>, and the
  webpack loader context with what the callbacks of \<^verbatim>\<open>resolve\<close>, \<^verbatim>\<open>fs.readFile\<close> and
  \<^verbatim>\<open>fs.stat\<close> receive. \<open>completion source k\<close> is the
  order in which the promises of the \<open>k\<close>-th \<^verbatim>\<open>Promise.all\<close> of \<^verbatim>\<open>extractImports\<close> settle
  while \<open>source\<close> is expanded. \<open>minifyDocumentString\<close> stands for the four regular
  expression replacements of the function of that name, which are not interpreted.
  The calls of \<^verbatim>\<open>addDependency\<close> and \<^verbatim>\<open>cacheable\<close> have no effect on the results and are
  left out.
\<close>

record environment =
  graphqlParse :: "jsString \<Rightarrow> document option"
  graphqlValidate :: "graphQLSchema \<Rightarrow> document \<Rightarrow> graphQLError list"
  graphqlPrint :: "document \<Rightarrow> string"
  buildClientSchema :: "jsString \<Rightarrow> graphQLSchema option"
  jsonStringify :: "string \<Rightarrow> string"
  minifyDocumentString :: "string \<Rightarrow> string"
  join :: "jsString \<Rightarrow> jsString \<Rightarrow> jsString"
  dirname :: "jsString \<Rightarrow> jsString"
  loaderResolve :: "jsString \<Rightarrow> jsString \<Rightarrow> jsString callback"
  fsReadFile :: "jsString \<Rightarrow> jsString callback"
  fsStat :: "jsString \<Rightarrow> stats callback"
  loaderContext :: jsString
  getOptions :: graphQLLoaderOptions
  asyncCallback :: bool
  completion :: "jsString \<Rightarrow> nat \<Rightarrow> nat list"

text \<open>
  \<^verbatim>\<open>readFile\<close> and \<^verbatim>\<open>stat\<close> reject with the error of the callback, which is no error
  at all when the callback has received none.
\<close>

definition readFile :: "environment \<Rightarrow> jsString \<Rightarrow> error + jsString" where
  "readFile loader filePath =
     (case fsReadFile loader filePath of
        WithError \<Rightarrow> Inl ReadError
      | WithNothing \<Rightarrow> Inl NullRejection
      | WithResult result \<Rightarrow> Inr result)"

definition stat :: "environment \<Rightarrow> jsString \<Rightarrow> error + stats" where
  "stat loader filePath =
     (case fsStat loader filePath of
        WithError \<Rightarrow> Inl StatError
      | WithNothing \<Rightarrow> Inl NullRejection
      | WithResult result \<Rightarrow> Inr result)"

subsection \<open>Lines and import statements\<close>

text \<open>
  \<^verbatim>\<open>source.split(/(\r\n|\r|\n)/)\<close>: the pieces between the line breaks, with each line
  break (the captured group) as an element of its own between them. The code units
  \<open>0x0D\<close> and \<open>0x0A\<close> are carriage return and line feed.
\<close>

fun splitLines :: "jsString \<Rightarrow> jsString list" where
  "splitLines [] = [[]]"
| "splitLines (c # cs) =
     (if c = 0x0D then
        (case cs of
           [] \<Rightarrow> [] # [0x0D] # splitLines []
         | d # ds \<Rightarrow>
             if d = 0x0A then [] # [0x0D, 0x0A] # splitLines ds
             else [] # [0x0D] # splitLines cs)
      else if c = 0x0A then [] # [0x0A] # splitLines cs
      else (case splitLines cs of [] \<Rightarrow> [[c]] | piece # pieces \<Rightarrow> (c # piece) # pieces))"

text \<open>\<^verbatim>\<open>split(" ")\<close>: the pieces between the single spaces (code unit \<open>0x20\<close>).\<close>

fun splitSpaces :: "jsString \<Rightarrow> jsString list" where
  "splitSpaces [] = [[]]"
| "splitSpaces (c # cs) =
     (if c = 0x20 then [] # splitSpaces cs
      else (case splitSpaces cs of [] \<Rightarrow> [[c]] | piece # pieces \<Rightarrow> (c # piece) # pieces))"

text \<open>
  The regular expression \<^verbatim>\<open>/^["'](.+)["']/\<close>: a quote character (\<open>0x22\<close> or \<open>0x27\<close>),
  the longest run of at least one code unit other than a line terminator, then a quote
  character. The dot of a regular expression without flags matches every code unit but
  the four line terminators: line feed, carriage return, and the line and paragraph
  separators \<open>0x2028\<close> and \<open>0x2029\<close>. The run is matched greedily and shortened one
  code unit at a time until a quote character follows it. The result is the captured
  run.
\<close>

definition isQuote :: "codeUnit \<Rightarrow> bool" where
  "isQuote c = (c = 0x22 \<or> c = 0x27)"

definition isLineTerminator :: "codeUnit \<Rightarrow> bool" where
  "isLineTerminator c = (c = 0x0A \<or> c = 0x0D \<or> c = 0x2028 \<or> c = 0x2029)"

fun closingQuote :: "jsString \<Rightarrow> nat \<Rightarrow> jsString option" where
  "closingQuote rest 0 = None"
| "closingQuote rest (Suc k) =
     (if Suc k < length rest \<and> isQuote (rest ! Suc k) then Some (take (Suc k) rest)
      else closingQuote rest k)"

definition filePathMatch :: "jsString \<Rightarrow> jsString option" where
  "filePathMatch token =
     (case token of
        [] \<Rightarrow> None
      | q # rest \<Rightarrow>
          if isQuote q
          then closingQuote rest (length (takeWhile (\<lambda>c. \<not> isLineTerminator c) rest))
          else None)"

text \<open>
  The body of \<^verbatim>\<open>lines.forEach\<close> for one line: \<open>None\<close> when the line is skipped,
  \<open>Some (Inl ImportSyntaxError)\<close> when it throws, \<open>Some (Inr filePath)\<close> when it pushes
  the promise that resolves \<open>filePath\<close>. The code unit \<open>0x23\<close> is the number sign.
\<close>

definition importLine :: "jsString \<Rightarrow> (error + jsString) option" where
  "importLine line =
     (case line of
        [] \<Rightarrow> None
      | c # rest \<Rightarrow>
          if c \<noteq> 0x23 then None
          else (case splitSpaces rest of
                  [] \<Rightarrow> None
                | keyword # tokens \<Rightarrow>
                    if keyword \<noteq> ascii ''import'' then None
                    else (case tokens of
                            [] \<Rightarrow> Some (Inl ImportSyntaxError)
                          | token # others \<Rightarrow>
                              if token = [] then Some (Inl ImportSyntaxError)
                              else (case filePathMatch token of
                                      None \<Rightarrow> Some (Inl ImportSyntaxError)
                                    | Some filePath \<Rightarrow> Some (Inr filePath)))))"

fun scanImports :: "jsString list \<Rightarrow> error + jsString list" where
  "scanImports [] = Inr []"
| "scanImports (line # lines) =
     (case importLine line of
        None \<Rightarrow> scanImports lines
      | Some (Inl e) \<Rightarrow> Inl e
      | Some (Inr filePath) \<Rightarrow>
          (case scanImports lines of Inl e \<Rightarrow> Inl e | Inr imports \<Rightarrow> Inr (filePath # imports)))"

subsection \<open>Promises\<close>

text \<open>
  The state of a promise is \<open>None\<close> while it has not settled, \<open>Some (Inl e)\<close> when it
  is rejected and \<open>Some (Inr v)\<close> when it is fulfilled. \<^verbatim>\<open>Promise.all\<close> is rejected with
  the error of the first promise to be rejected, in the order in which the promises
  settle; it is fulfilled with the values in the order of its argument when every promise
  is fulfilled; otherwise it does not settle. A settled promise that the given order
  leaves out is taken to settle after the listed ones, in the order of the argument.
  \<open>await\<close> continues with the value of a fulfilled promise.
\<close>

fun firstRejection :: "nat list \<Rightarrow> (error + 'a) option list \<Rightarrow> error option" where
  "firstRejection [] promises = None"
| "firstRejection (i # order) promises =
     (if i < length promises
      then (case promises ! i of
              Some (Inl e) \<Rightarrow> Some e
            | _ \<Rightarrow> firstRejection order promises)
      else firstRejection order promises)"

fun allFulfilled :: "(error + 'a) option list \<Rightarrow> 'a list option" where
  "allFulfilled [] = Some []"
| "allFulfilled (Some (Inr v) # promises) = map_option ((#) v) (allFulfilled promises)"
| "allFulfilled (p # promises) = None"

definition promiseAll :: "nat list \<Rightarrow> (error + 'a) option list \<Rightarrow> (error + 'a list) option" where
  "promiseAll order promises =
     (case firstRejection (order @ [0..<length promises]) promises of
        Some e \<Rightarrow> Some (Inl e)
      | None \<Rightarrow> map_option Inr (allFulfilled promises))"

definition await :: "(error + 'a) option \<Rightarrow> ('a \<Rightarrow> (error + 'b) option) \<Rightarrow> (error + 'b) option" where
  "await promise continue =
     (case promise of
        None \<Rightarrow> None
      | Some (Inl e) \<Rightarrow> Some (Inl e)
      | Some (Inr v) \<Rightarrow> continue v)"

subsection \<open>extractImports and loadSource\<close>

text \<open>
  \<open>extractImports\<close> takes the function it calls on each imported file as its first
  argument; \<open>loadSource\<close> passes itself. The recursion of \<open>loadSource\<close> through the
  imports need not end (a file may import itself), so it is bounded: \<open>loadSource fuel\<close>
  follows imports to depth \<open>fuel\<close> and is \<open>None\<close> where the expansion has not settled
  within that depth. The promise of an import is rejected with the error of the
  callback of \<^verbatim>\<open>loader.resolve\<close>, which is no error at all when the callback has
  received none.
\<close>

definition extractImports ::
  "(jsString \<Rightarrow> jsString \<Rightarrow> (error + document) option) \<Rightarrow> environment \<Rightarrow> jsString \<Rightarrow> jsString
     \<Rightarrow> document \<Rightarrow> (error + document) option" where
  "extractImports load loader resolveContext source document =
     (case scanImports (splitLines source) of
        Inl e \<Rightarrow> Some (Inl e)
      | Inr imports \<Rightarrow>
          await (promiseAll (completion loader source 0)
                   (map (\<lambda>filePath.
                           case loaderResolve loader resolveContext filePath of
                             WithError \<Rightarrow> Some (Inl ImportResolutionError)
                           | WithNothing \<Rightarrow> Some (Inl NullRejection)
                           | WithResult result \<Rightarrow> Some (Inr result))
                      imports))
            (\<lambda>files.
          await (promiseAll (completion loader source 1)
                   (map (\<lambda>filePath.
                           case readFile loader filePath of
                             Inl e \<Rightarrow> Some (Inl e)
                           | Inr content \<Rightarrow> Some (Inr (dirname loader filePath, content)))
                      files))
            (\<lambda>contents.
          await (promiseAll (completion loader source 2)
                   (map (\<lambda>(fileContext, content). load fileContext content) contents))
            (\<lambda>nodes.
          let fragmentDefinitions = foldl (\<lambda>defs node. defs @ definitions node) [] nodes
          in Some (Inr (document\<lparr>definitions := definitions document @ fragmentDefinitions\<rparr>))))))"

primrec loadSource :: "nat \<Rightarrow> environment \<Rightarrow> jsString \<Rightarrow> jsString \<Rightarrow> (error + document) option" where
  "loadSource 0 loader resolveContext source = None"
| "loadSource (Suc fuel) loader resolveContext source =
     (case graphqlParse loader source of
        None \<Rightarrow> Some (Inl SyntaxError)
      | Some document \<Rightarrow>
          extractImports (loadSource fuel loader) loader resolveContext source document)"

section \<open>The loader\<close>

text \<open>
  The process-wide table \<^verbatim>\<open>cachedSchemas\<close> is passed in and returned. The walk of
  \<^verbatim>\<open>findFileInTree\<close> towards the root is bounded by the fuel as well; a rejection of
  \<^verbatim>\<open>stat\<close> is caught there and the walk goes on.
\<close>

record cachedSchema =
  cacheMtime :: int
  cacheSchema :: graphQLSchema

type_synonym cachedSchemas = "jsString \<Rightarrow> cachedSchema option"

primrec findFileInTree :: "nat \<Rightarrow> environment \<Rightarrow> jsString \<Rightarrow> jsString \<Rightarrow> (error + jsString) option" where
  "findFileInTree 0 loader currentContext schemaPath = None"
| "findFileInTree (Suc fuel) loader currentContext schemaPath =
     (let fileName = join loader currentContext schemaPath
      in if (case stat loader fileName of Inl e \<Rightarrow> False | Inr found \<Rightarrow> isFile found)
         then Some (Inr fileName)
         else (let parent = dirname loader currentContext
               in if parent = currentContext then Some (Inl SchemaNotFound)
                  else findFileInTree fuel loader parent schemaPath))"

definition loadSchema ::
  "nat \<Rightarrow> environment \<Rightarrow> graphQLLoaderOptions \<Rightarrow> cachedSchemas
     \<Rightarrow> (error + graphQLSchema \<times> cachedSchemas) option" where
  "loadSchema fuel loader options cache =
     (case schema options of
        None \<Rightarrow> Some (Inl SchemaOptionMissing)
      | Some path \<Rightarrow>
          if path = [] then Some (Inl SchemaOptionMissing)
          else
            await (findFileInTree fuel loader (loaderContext loader) path) (\<lambda>schemaPath.
            await (Some (stat loader schemaPath)) (\<lambda>found.
            await (Some (readFile loader schemaPath)) (\<lambda>schemaString.
              let lastChangedAt = mtime found;
                  built =
                    (case buildClientSchema loader schemaString of
                       None \<Rightarrow> Some (Inl InvalidSchema)
                     | Some fresh \<Rightarrow>
                         Some (Inr (fresh,
                           cache(schemaPath \<mapsto>
                             \<lparr>cacheMtime = lastChangedAt, cacheSchema = fresh\<rparr>))))
              in (case cache schemaPath of
                    None \<Rightarrow> built
                  | Some cached \<Rightarrow>
                      if lastChangedAt \<le> cacheMtime cached
                      then Some (Inr (cacheSchema cached, cache))
                      else built)))))"

record loadedOptions =
  loadedSchema :: "graphQLSchema option"
  loadedRemoveUnusedFragments :: bool
  loadedMinify :: bool
  loadedEmitDefaultExport :: bool

definition loadOptions ::
  "nat \<Rightarrow> environment \<Rightarrow> cachedSchemas \<Rightarrow> (error + loadedOptions \<times> cachedSchemas) option" where
  "loadOptions fuel loader cache =
     (let options = getOptions loader
      in if validate options
         then await (loadSchema fuel loader options cache) (\<lambda>(loaded, cache').
                Some (Inr (\<lparr>loadedSchema = Some loaded,
                             loadedRemoveUnusedFragments = removeUnusedFragmentsOption options,
                             loadedMinify = minify options,
                             loadedEmitDefaultExport = emitDefaultExport options\<rparr>, cache')))
         else Some (Inr (\<lparr>loadedSchema = None,
                           loadedRemoveUnusedFragments = removeUnusedFragmentsOption options,
                           loadedMinify = minify options,
                           loadedEmitDefaultExport = emitDefaultExport options\<rparr>, cache)))"

text \<open>
  What a run of the loader leaves behind: the errors handed to \<^verbatim>\<open>emitError\<close>, in order;
  how it ended; and the table of schemas. It ends by a call of \<^verbatim>\<open>done\<close> with an error
  or with the output, by the call \<^verbatim>\<open>done(null)\<close> (which \<open>caught\<close> makes of a rejection
  with no error, and which passes neither an error nor an output), or by throwing before
  the \<^verbatim>\<open>try\<close> block.
\<close>

datatype outcome = Done "error + string" | DoneWithNull | Thrown error

fun caught :: "error \<Rightarrow> outcome" where
  "caught NullRejection = DoneWithNull"
| "caught err = Done (Inl err)"

record loaderResult =
  emittedErrors :: "graphQLError list"
  outcome :: outcome
  schemasAfter :: cachedSchemas

definition loader :: "nat \<Rightarrow> environment \<Rightarrow> cachedSchemas \<Rightarrow> jsString \<Rightarrow> loaderResult option" where
  "loader fuel this cache source =
     (if \<not> asyncCallback this
      then Some \<lparr>emittedErrors = [], outcome = Thrown NoAsyncCallback, schemasAfter = cache\<rparr>
      else
        (case loadOptions fuel this cache of
           None \<Rightarrow> None
         | Some (Inl err) \<Rightarrow>
             Some \<lparr>emittedErrors = [], outcome = caught err, schemasAfter = cache\<rparr>
         | Some (Inr (options, cache')) \<Rightarrow>
             (case loadSource fuel this (loaderContext this) source of
                None \<Rightarrow> None
              | Some (Inl err) \<Rightarrow>
                  Some \<lparr>emittedErrors = [], outcome = caught err, schemasAfter = cache'\<rparr>
              | Some (Inr loaded) \<Rightarrow>
                  (let deduplicated = removeDuplicateFragments loaded;
                       document =
                         (if loadedRemoveUnusedFragments options
                          then removeUnusedFragments deduplicated else deduplicated);
                       validationErrors =
                         (case loadedSchema options of
                            None \<Rightarrow> []
                          | Some given \<Rightarrow> graphqlValidate this given document);
                       content = jsonStringify this (graphqlPrint this document);
                       output =
                         (if loadedMinify options then minifyDocumentString this content
                          else content);
                       exp =
                         (if loadedEmitDefaultExport options then ''export default ''
                          else ''module.exports = '')
                   in Some \<lparr>emittedErrors = validationErrors,
                             outcome = Done (Inr (exp @ output)),
                             schemasAfter = cache'\<rparr>))))"

section \<open>Notions used to state the properties of the expansion\<close>

text \<open>The file paths of the import lines of a source, in the order of the lines.\<close>

definition importPaths :: "jsString \<Rightarrow> jsString list" where
  "importPaths source =
     concat (map (\<lambda>line. case importLine line of Some (Inr filePath) \<Rightarrow> [filePath] | _ \<Rightarrow> [])
               (splitLines source))"

text \<open>
  A token that the regular expression accepts: a quote character, one or more
  code units that are not line terminators, a quote character (either one), and
  anything after it.
\<close>

definition quotedPath :: "jsString \<Rightarrow> bool" where
  "quotedPath token =
     (\<exists>q body q' tail. token = q # body @ q' # tail \<and> isQuote q \<and> isQuote q' \<and> body \<noteq> []
        \<and> (\<forall>c \<in> set body. \<not> isLineTerminator c))"

text \<open>
  The pieces that follow \<^verbatim>\<open>import\<close> in the split at single spaces make the statement
  malformed when there is none, or when the first of them (which is empty when two
  spaces follow \<^verbatim>\<open>import\<close>) is not such a token.
\<close>

definition malformedImport :: "jsString list \<Rightarrow> bool" where
  "malformedImport tokens = (case tokens of [] \<Rightarrow> True | token # others \<Rightarrow> \<not> quotedPath token)"

text \<open>
  The syntax as the specification words it. A token is enclosed in matching quote
  characters when it is a path of at least one code unit between two equal quote
  characters. The whitespace-delimited tokens of a text are its pieces between runs of
  whitespace (space, tab, vertical tab, form feed). The text after the number sign is
  well formed when its second whitespace-delimited token is enclosed in matching quote
  characters.
\<close>

definition enclosedInMatchingQuotes :: "jsString \<Rightarrow> bool" where
  "enclosedInMatchingQuotes token =
     (case token of [] \<Rightarrow> False | q # rest \<Rightarrow> isQuote q \<and> 2 \<le> length rest \<and> last rest = q)"

definition isWhitespace :: "codeUnit \<Rightarrow> bool" where
  "isWhitespace c = (c = 0x20 \<or> c = 0x09 \<or> c = 0x0B \<or> c = 0x0C)"

fun splitWhitespace :: "jsString \<Rightarrow> jsString list" where
  "splitWhitespace [] = [[]]"
| "splitWhitespace (c # cs) =
     (if isWhitespace c then [] # splitWhitespace cs
      else (case splitWhitespace cs of [] \<Rightarrow> [[c]] | piece # pieces \<Rightarrow> (c # piece) # pieces))"

definition whitespaceTokens :: "jsString \<Rightarrow> jsString list" where
  "whitespaceTokens text = filter (\<lambda>piece. piece \<noteq> []) (splitWhitespace text)"

definition wellFormedAsSpecified :: "jsString \<Rightarrow> bool" where
  "wellFormedAsSpecified rest =
     (case whitespaceTokens rest of
        keyword # token # others \<Rightarrow> enclosedInMatchingQuotes token
      | _ \<Rightarrow> False)"

section \<open>Auxiliary facts about the expansion\<close>

lemma importLine_error: "importLine line = Some (Inl e) \<Longrightarrow> e = ImportSyntaxError"
  by (auto simp: importLine_def split: list.splits if_splits option.splits)

lemma scanImports_Inr:
  "scanImports lines = Inr paths \<Longrightarrow>
     paths = concat (map (\<lambda>line. case importLine line of Some (Inr filePath) \<Rightarrow> [filePath] | _ \<Rightarrow> []) lines)
     \<and> (\<forall>line \<in> set lines. importLine line \<noteq> Some (Inl ImportSyntaxError))"
proof (induction lines arbitrary: paths)
  case Nil
  then show ?case by simp
next
  case (Cons line lines)
  then show ?case
    by (auto split: option.splits sum.splits)
qed

lemma scanImports_Inl:
  "(scanImports lines = Inl e) =
     (e = ImportSyntaxError \<and> (\<exists>line \<in> set lines. importLine line = Some (Inl ImportSyntaxError)))"
proof (induction lines)
  case Nil
  show ?case by simp
next
  case (Cons line lines)
  show ?case
  proof (cases "importLine line")
    case None
    then show ?thesis using Cons.IH by simp
  next
    case (Some r)
    show ?thesis
    proof (cases r)
      case (Inl e')
      with Some have "e' = ImportSyntaxError" by (simp add: importLine_error)
      with Some Inl show ?thesis by auto
    next
      case (Inr filePath)
      with Some show ?thesis using Cons.IH by (auto split: sum.splits)
    qed
  qed
qed

lemma scanImports_wellformed:
  assumes "\<forall>line \<in> set lines. importLine line \<noteq> Some (Inl ImportSyntaxError)"
  shows "scanImports lines =
     Inr (concat (map (\<lambda>line. case importLine line of Some (Inr filePath) \<Rightarrow> [filePath] | _ \<Rightarrow> [])
            lines))"
proof (cases "scanImports lines")
  case (Inl e)
  with assms show ?thesis unfolding scanImports_Inl by blast
next
  case (Inr paths)
  then show ?thesis using scanImports_Inr [of lines paths] by simp
qed

lemma allFulfilled_iff: "(allFulfilled promises = Some vs) = (promises = map (\<lambda>v. Some (Inr v)) vs)"
proof (induction promises arbitrary: vs)
  case Nil
  show ?case by auto
next
  case (Cons p promises)
  show ?case
  proof (cases p)
    case None
    then show ?thesis by (cases vs) auto
  next
    case (Some r)
    show ?thesis
    proof (cases r)
      case (Inl e)
      with Some show ?thesis by (cases vs) auto
    next
      case (Inr v)
      with Some show ?thesis by (cases vs) (auto simp: Cons.IH)
    qed
  qed
qed

lemma firstRejection_fulfilled:
  "firstRejection order (map (\<lambda>v. Some (Inr v)) vs) = None"
  by (induction order) auto

lemma promiseAll_fulfilled:
  "(promiseAll order promises = Some (Inr vs)) = (promises = map (\<lambda>v. Some (Inr v)) vs)"
proof
  assume "promiseAll order promises = Some (Inr vs)"
  then have "allFulfilled promises = Some vs"
    by (auto simp: promiseAll_def split: option.splits)
  then show "promises = map (\<lambda>v. Some (Inr v)) vs" by (simp add: allFulfilled_iff)
next
  assume eq: "promises = map (\<lambda>v. Some (Inr v)) vs"
  then have "allFulfilled promises = Some vs" by (simp add: allFulfilled_iff)
  moreover have "firstRejection (order @ [0..<length promises]) promises = None"
    unfolding eq by (rule firstRejection_fulfilled)
  ultimately show "promiseAll order promises = Some (Inr vs)"
    by (simp add: promiseAll_def)
qed

lemma await_fulfilled:
  "(await promise continue = Some (Inr r)) = (\<exists>v. promise = Some (Inr v) \<and> continue v = Some (Inr r))"
  by (auto simp: await_def split: option.splits sum.splits)

lemma map_eq_list_all2:
  assumes "\<And>x v. (F x = G v) = P x v"
  shows "(map F xs = map G vs) = list_all2 P xs vs"
proof (induction xs arbitrary: vs)
  case Nil
  show ?case by auto
next
  case (Cons x xs)
  show ?case by (cases vs) (auto simp: assms Cons.IH)
qed

lemma foldl_definitions:
  "foldl (\<lambda>defs node. defs @ definitions node) acc nodes = acc @ concat (map definitions nodes)"
  by (induction nodes arbitrary: acc) auto

lemma extractImports_fulfilled:
  "(extractImports load env resolveContext source document = Some (Inr doc)) =
     (\<exists>paths files contents nodes.
        scanImports (splitLines source) = Inr paths
      \<and> list_all2 (\<lambda>filePath file. loaderResolve env resolveContext filePath = WithResult file)
            paths files
      \<and> list_all2 (\<lambda>file content. fsReadFile env file = WithResult content) files contents
      \<and> list_all2 (\<lambda>(file, content) node. load (dirname env file) content = Some (Inr node))
            (zip files contents) nodes
      \<and> doc = document\<lparr>definitions := definitions document @ concat (map definitions nodes)\<rparr>)"
  (is "?lhs = ?rhs")
proof (cases "scanImports (splitLines source)")
  case (Inl e)
  then show ?thesis by (simp add: extractImports_def)
next
  case (Inr paths)
  let ?resolve = "\<lambda>filePath. case loaderResolve env resolveContext filePath of
      WithError \<Rightarrow> Some (Inl ImportResolutionError)
    | WithNothing \<Rightarrow> Some (Inl NullRejection)
    | WithResult result \<Rightarrow> Some (Inr result)"
  let ?read = "\<lambda>filePath. case readFile env filePath of
      Inl e \<Rightarrow> Some (Inl e) | Inr content \<Rightarrow> Some (Inr (dirname env filePath, content))"
  let ?load = "\<lambda>(fileContext, content). load fileContext content"
  have resolve: "(map ?resolve paths = map (\<lambda>v. Some (Inr v)) files)
      = list_all2 (\<lambda>filePath file. loaderResolve env resolveContext filePath = WithResult file)
          paths files" for files
    by (rule map_eq_list_all2) (auto split: callback.splits)
  have read: "(map ?read files = map (\<lambda>v. Some (Inr v)) pairs)
      = list_all2 (\<lambda>file pair. fsReadFile env file = WithResult (snd pair)
                     \<and> fst pair = dirname env file) files pairs" for files pairs
    by (rule map_eq_list_all2) (auto simp: readFile_def split: callback.splits)
  have load: "(map ?load pairs = map (\<lambda>v. Some (Inr v)) nodes)
      = list_all2 (\<lambda>pair node. load (fst pair) (snd pair) = Some (Inr node)) pairs nodes"
    for pairs nodes
    by (rule map_eq_list_all2) (auto split: prod.splits)
  have unfold: "?lhs =
     (\<exists>files pairs nodes.
        list_all2 (\<lambda>filePath file. loaderResolve env resolveContext filePath = WithResult file)
          paths files
      \<and> list_all2 (\<lambda>file pair. fsReadFile env file = WithResult (snd pair)
                     \<and> fst pair = dirname env file) files pairs
      \<and> list_all2 (\<lambda>pair node. load (fst pair) (snd pair) = Some (Inr node)) pairs nodes
      \<and> doc = document\<lparr>definitions := definitions document @ concat (map definitions nodes)\<rparr>)"
    unfolding extractImports_def
    by (simp add: Inr await_fulfilled promiseAll_fulfilled resolve read load foldl_definitions
        Let_def eq_commute [of doc])
  also have "\<dots> = ?rhs"
  proof
    assume "\<exists>files pairs nodes.
        list_all2 (\<lambda>filePath file. loaderResolve env resolveContext filePath = WithResult file)
          paths files
      \<and> list_all2 (\<lambda>file pair. fsReadFile env file = WithResult (snd pair)
                     \<and> fst pair = dirname env file) files pairs
      \<and> list_all2 (\<lambda>pair node. load (fst pair) (snd pair) = Some (Inr node)) pairs nodes
      \<and> doc = document\<lparr>definitions := definitions document @ concat (map definitions nodes)\<rparr>"
    then obtain files pairs nodes where
      r: "list_all2 (\<lambda>filePath file. loaderResolve env resolveContext filePath = WithResult file)
          paths files"
      and p: "list_all2 (\<lambda>file pair. fsReadFile env file = WithResult (snd pair)
                     \<and> fst pair = dirname env file) files pairs"
      and n: "list_all2 (\<lambda>pair node. load (fst pair) (snd pair) = Some (Inr node)) pairs nodes"
      and d: "doc = document\<lparr>definitions := definitions document @ concat (map definitions nodes)\<rparr>"
      by blast
    from p have len: "length files = length pairs" by (rule list_all2_lengthD)
    from p have c: "list_all2 (\<lambda>file content. fsReadFile env file = WithResult content)
        files (map snd pairs)"
      by (simp add: list_all2_conv_all_nth)
    from p n have "list_all2 (\<lambda>(file, content) node. load (dirname env file) content = Some (Inr node))
        (zip files (map snd pairs)) nodes"
      by (simp add: list_all2_conv_all_nth)
    with Inr r c d show ?rhs by blast
  next
    assume ?rhs
    then obtain files contents nodes where
      r: "list_all2 (\<lambda>filePath file. loaderResolve env resolveContext filePath = WithResult file)
          paths files"
      and c: "list_all2 (\<lambda>file content. fsReadFile env file = WithResult content) files contents"
      and n: "list_all2 (\<lambda>(file, content) node. load (dirname env file) content = Some (Inr node))
            (zip files contents) nodes"
      and d: "doc = document\<lparr>definitions := definitions document @ concat (map definitions nodes)\<rparr>"
      using Inr by auto
    let ?pairs = "zip (map (dirname env) files) contents"
    from c have len: "length files = length contents" by (rule list_all2_lengthD)
    from c have "list_all2 (\<lambda>file pair. fsReadFile env file = WithResult (snd pair)
                     \<and> fst pair = dirname env file) files ?pairs"
      by (simp add: list_all2_conv_all_nth)
    moreover from n len
    have "list_all2 (\<lambda>pair node. load (fst pair) (snd pair) = Some (Inr node)) ?pairs nodes"
      by (simp add: list_all2_conv_all_nth)
    ultimately show "\<exists>files pairs nodes.
        list_all2 (\<lambda>filePath file. loaderResolve env resolveContext filePath = WithResult file)
          paths files
      \<and> list_all2 (\<lambda>file pair. fsReadFile env file = WithResult (snd pair)
                     \<and> fst pair = dirname env file) files pairs
      \<and> list_all2 (\<lambda>pair node. load (fst pair) (snd pair) = Some (Inr node)) pairs nodes
      \<and> doc = document\<lparr>definitions := definitions document @ concat (map definitions nodes)\<rparr>"
      using r d by blast
  qed
  finally show ?thesis .
qed

lemma extractImports_mono:
  assumes load: "\<And>fileContext content node.
        load fileContext content = Some (Inr node) \<Longrightarrow> load' fileContext content = Some (Inr node)"
      and expanded: "extractImports load env resolveContext source document = Some (Inr doc)"
  shows "extractImports load' (env\<lparr>completion := order\<rparr>) resolveContext source document
           = Some (Inr doc)"
proof -
  let ?env' = "env\<lparr>completion := order\<rparr>"
  from expanded obtain paths files contents nodes where
    scan: "scanImports (splitLines source) = Inr paths"
    and r: "list_all2 (\<lambda>filePath file. loaderResolve env resolveContext filePath = WithResult file)
          paths files"
    and c: "list_all2 (\<lambda>file content. fsReadFile env file = WithResult content) files contents"
    and n: "list_all2 (\<lambda>(file, content) node. load (dirname env file) content = Some (Inr node))
            (zip files contents) nodes"
    and d: "doc = document\<lparr>definitions := definitions document @ concat (map definitions nodes)\<rparr>"
    unfolding extractImports_fulfilled by blast
  from n have n': "list_all2 (\<lambda>(file, content) node.
              load' (dirname ?env' file) content = Some (Inr node))
            (zip files contents) nodes"
    by (rule list_all2_mono) (auto dest: load)
  show ?thesis
    unfolding extractImports_fulfilled using scan r c n' d by auto
qed

lemma loadSource_completion:
  assumes "loadSource fuel env resolveContext source = Some (Inr doc)"
  shows "loadSource fuel (env\<lparr>completion := order\<rparr>) resolveContext source = Some (Inr doc)"
  using assms
proof (induction fuel arbitrary: resolveContext source doc)
  case 0
  then show ?case by simp
next
  case (Suc fuel)
  from Suc.prems obtain document where
    parsed: "graphqlParse env source = Some document"
    and expanded: "extractImports (loadSource fuel env) env resolveContext source document
        = Some (Inr doc)"
    by (auto split: option.splits)
  from Suc.IH expanded
  have "extractImports (loadSource fuel (env\<lparr>completion := order\<rparr>)) (env\<lparr>completion := order\<rparr>)
      resolveContext source document = Some (Inr doc)"
    by (rule extractImports_mono)
  with parsed show ?case by simp
qed

text \<open>A document returned within some depth is returned within every greater depth.\<close>

lemma loadSource_more_fuel:
  assumes "loadSource fuel env resolveContext source = Some (Inr doc)"
  shows "loadSource (Suc fuel) env resolveContext source = Some (Inr doc)"
  using assms
proof (induction fuel arbitrary: resolveContext source doc)
  case 0
  then show ?case by simp
next
  case (Suc fuel)
  from Suc.prems obtain document where
    parsed: "graphqlParse env source = Some document"
    and expanded: "extractImports (loadSource fuel env) env resolveContext source document
        = Some (Inr doc)"
    by (auto split: option.splits)
  from Suc.IH expanded
  have "extractImports (loadSource (Suc fuel) env) (env\<lparr>completion := completion env\<rparr>)
      resolveContext source document = Some (Inr doc)"
    by (rule extractImports_mono)
  with parsed show ?case by simp
qed

lemma closingQuote_None:
  "(closingQuote rest k = None) = (\<forall>j. 0 < j \<and> j \<le> k \<and> j < length rest \<longrightarrow> \<not> isQuote (rest ! j))"
proof (induction k)
  case 0
  show ?case by simp
next
  case (Suc k)
  show ?case
  proof (cases "Suc k < length rest \<and> isQuote (rest ! Suc k)")
    case True
    then show ?thesis by auto
  next
    case False
    have same: "(\<forall>j. 0 < j \<and> j \<le> Suc k \<and> j < length rest \<longrightarrow> \<not> isQuote (rest ! j))
        = (\<forall>j. 0 < j \<and> j \<le> k \<and> j < length rest \<longrightarrow> \<not> isQuote (rest ! j))"
      using False by (auto simp: le_Suc_eq)
    from False have "closingQuote rest (Suc k) = closingQuote rest k" by auto
    then show ?thesis unfolding same using Suc.IH by simp
  qed
qed

lemma filePathMatch_None: "(filePathMatch token = None) = (\<not> quotedPath token)"
proof (cases token)
  case Nil
  then show ?thesis by (simp add: filePathMatch_def quotedPath_def)
next
  case (Cons q rest)
  let ?P = "\<lambda>c. \<not> isLineTerminator c"
  let ?run = "takeWhile ?P rest"
  show ?thesis
  proof (cases "isQuote q")
    case False
    with Cons show ?thesis by (simp add: filePathMatch_def quotedPath_def)
  next
    case True
    have "(\<exists>j. 0 < j \<and> j \<le> length ?run \<and> j < length rest \<and> isQuote (rest ! j))
        = (\<exists>body q' tail. rest = body @ q' # tail \<and> isQuote q' \<and> body \<noteq> []
             \<and> (\<forall>c \<in> set body. ?P c))"
    proof
      assume "\<exists>j. 0 < j \<and> j \<le> length ?run \<and> j < length rest \<and> isQuote (rest ! j)"
      then obtain j where j: "0 < j" "j \<le> length ?run" "j < length rest" "isQuote (rest ! j)"
        by blast
      have split: "rest = take j rest @ rest ! j # drop (Suc j) rest"
        using j(3) by (rule id_take_nth_drop)
      have "take j rest = take j (?run @ dropWhile ?P rest)" by simp
      also have "\<dots> = take j ?run" using j(2) by (simp del: takeWhile_dropWhile_id)
      finally have "set (take j rest) \<subseteq> set ?run" by (simp add: set_take_subset)
      then have "\<forall>c \<in> set (take j rest). ?P c" by (blast dest: set_takeWhileD)
      moreover have "take j rest \<noteq> []" using j(1) j(3) by auto
      ultimately show "\<exists>body q' tail. rest = body @ q' # tail \<and> isQuote q' \<and> body \<noteq> []
             \<and> (\<forall>c \<in> set body. ?P c)"
        using split j(4) by blast
    next
      assume "\<exists>body q' tail. rest = body @ q' # tail \<and> isQuote q' \<and> body \<noteq> []
             \<and> (\<forall>c \<in> set body. ?P c)"
      then obtain body q' tail where
        b: "rest = body @ q' # tail" "isQuote q'" "body \<noteq> []" "\<forall>c \<in> set body. ?P c"
        by blast
      from b(1) b(4) have "?run = body @ takeWhile ?P (q' # tail)"
        by (simp add: takeWhile_append2)
      then have "length body \<le> length ?run" by simp
      moreover from b(3) have "0 < length body" by simp
      moreover from b(1) have "length body < length rest" by simp
      moreover from b(1) b(2) have "isQuote (rest ! length body)" by simp
      ultimately show "\<exists>j. 0 < j \<and> j \<le> length ?run \<and> j < length rest \<and> isQuote (rest ! j)"
        by blast
    qed
    then have found: "(\<not> (\<forall>j. 0 < j \<and> j \<le> length ?run \<and> j < length rest \<longrightarrow> \<not> isQuote (rest ! j)))
        = (\<exists>body q' tail. rest = body @ q' # tail \<and> isQuote q' \<and> body \<noteq> []
             \<and> (\<forall>c \<in> set body. ?P c))"
      by simp
    have matched: "filePathMatch token = closingQuote rest (length ?run)"
      using Cons True by (simp add: filePathMatch_def)
    have quoted: "quotedPath token
        = (\<exists>body q' tail. rest = body @ q' # tail \<and> isQuote q' \<and> body \<noteq> []
             \<and> (\<forall>c \<in> set body. ?P c))"
      using Cons True by (simp add: quotedPath_def)
    show ?thesis
      unfolding matched quoted closingQuote_None using found by blast
  qed
qed

lemma importLine_throws:
  assumes "splitSpaces rest = ascii ''import'' # tokens"
  shows "(importLine (0x23 # rest) = Some (Inl ImportSyntaxError)) = malformedImport tokens"
proof (cases tokens)
  case Nil
  with assms show ?thesis by (simp add: importLine_def malformedImport_def)
next
  case (Cons token others)
  have "\<not> quotedPath []" by (simp add: quotedPath_def)
  with assms Cons filePathMatch_None [of token] show ?thesis
    by (auto simp: importLine_def malformedImport_def split: option.splits)
qed

lemma loadSource_throws:
  assumes "line \<in> set (splitLines source)"
      and "importLine line = Some (Inl ImportSyntaxError)"
      and "graphqlParse env source = Some document"
  shows "loadSource (Suc fuel) env resolveContext source = Some (Inl ImportSyntaxError)"
proof -
  from assms(1,2) have "scanImports (splitLines source) = Inl ImportSyntaxError"
    unfolding scanImports_Inl by blast
  with assms(3) show ?thesis by (simp add: extractImports_def)
qed

section \<open>Example files\<close>

text \<open>
  A root file that imports \<^verbatim>\<open>a.graphql\<close> and \<^verbatim>\<open>b.graphql\<close>, of which the first imports
  \<^verbatim>\<open>c.graphql\<close>; a fragment file \<^verbatim>\<open>foo.graphql\<close>; and five query files whose first line
  is an import statement for it: without quotes, with quotes that do not match, with a
  character after the closing quote, with a line separator (\<open>0x2028\<close>) between matching
  quotes, and with two spaces after \<^verbatim>\<open>import\<close>. The parser is given by its results on
  these files; it reads an import line as a comment.
  The second promise of every \<^verbatim>\<open>Promise.all\<close> settles before the first.
\<close>

definition newline :: jsString where
  "newline = [0x0A]"

definition rootSource :: jsString where
  \<open>rootSource = ascii ''#import "a.graphql"'' @ newline @ ascii ''#import "b.graphql"'' @ newline
     @ ascii ''query { ...A ...B }''\<close>

definition aSource :: jsString where
  \<open>aSource = ascii ''#import "c.graphql"'' @ newline @ ascii ''fragment A on T { ...C }''\<close>

definition bSource :: jsString where
  "bSource = ascii ''fragment B on T { g }''"

definition cSource :: jsString where
  "cSource = ascii ''fragment C on T { h }''"

definition fooSource :: jsString where
  "fooSource = ascii ''fragment F on T { f }''"

definition mismatchedToken :: jsString where
  \<open>mismatchedToken = ascii ''"foo.graphql'' @ [0x27]\<close>

definition trailingToken :: jsString where
  \<open>trailingToken = ascii ''"foo.graphql"x''\<close>

definition separatorToken :: jsString where
  \<open>separatorToken = ascii ''"foo'' @ [0x2028] @ ascii ''.graphql"''\<close>

definition unquotedSource :: jsString where
  "unquotedSource = ascii ''#import foo.graphql'' @ newline @ ascii ''query { ...F }''"

definition mismatchedSource :: jsString where
  "mismatchedSource = ascii ''#import '' @ mismatchedToken @ newline @ ascii ''query { ...F }''"

definition trailingSource :: jsString where
  "trailingSource = ascii ''#import '' @ trailingToken @ newline @ ascii ''query { ...F }''"

definition separatorSource :: jsString where
  "separatorSource = ascii ''#import '' @ separatorToken @ newline @ ascii ''query { ...F }''"

definition quotedToken :: jsString where
  \<open>quotedToken = ascii ''"foo.graphql"''\<close>

definition doubleSpaceRest :: jsString where
  "doubleSpaceRest = ascii ''import  '' @ quotedToken"

definition doubleSpaceSource :: jsString where
  "doubleSpaceSource = 0x23 # doubleSpaceRest @ newline @ ascii ''query { ...F }''"

definition exampleLoader :: environment where
  "exampleLoader = \<lparr>
     graphqlParse = (\<lambda>source.
       if source = rootSource
       then Some \<lparr>definitions = [OperationDefinition None [FragmentSpread ''A'', FragmentSpread ''B'']]\<rparr>
       else if source = aSource
       then Some \<lparr>definitions = [FragmentDefinition ''A'' [FragmentSpread ''C'']]\<rparr>
       else if source = bSource
       then Some \<lparr>definitions = [FragmentDefinition ''B'' [Field ''g'' None]]\<rparr>
       else if source = cSource
       then Some \<lparr>definitions = [FragmentDefinition ''C'' [Field ''h'' None]]\<rparr>
       else if source = fooSource
       then Some \<lparr>definitions = [FragmentDefinition ''F'' [Field ''f'' None]]\<rparr>
       else if source \<in> {unquotedSource, mismatchedSource, trailingSource, separatorSource,
                          doubleSpaceSource}
       then Some \<lparr>definitions = [OperationDefinition None [FragmentSpread ''F'']]\<rparr>
       else None),
     graphqlValidate = (\<lambda>schema document. [''Cannot query field g on type T'']),
     graphqlPrint = (\<lambda>document. ''printed''),
     buildClientSchema = (\<lambda>text. Some (GraphQLSchema text)),
     jsonStringify = (\<lambda>text. text),
     minifyDocumentString = (\<lambda>text. text),
     join = (\<lambda>directory file. directory @ file),
     dirname = (\<lambda>path. ascii ''/''),
     loaderResolve = (\<lambda>directory request. WithResult (directory @ request)),
     fsReadFile = (\<lambda>path.
       if path = ascii ''/a.graphql'' then WithResult aSource
       else if path = ascii ''/b.graphql'' then WithResult bSource
       else if path = ascii ''/c.graphql'' then WithResult cSource
       else if path = ascii ''/foo.graphql'' then WithResult fooSource
       else if path = ascii ''/schema.json'' then WithResult (ascii ''{}'')
       else WithError),
     fsStat = (\<lambda>path.
       if path = ascii ''/schema.json'' then WithResult \<lparr>isFile = True, mtime = 7\<rparr>
       else WithError),
     loaderContext = ascii ''/'',
     getOptions = \<lparr>schema = Some (ascii ''schema.json''), validate = True,
       removeUnusedFragmentsOption = True, minify = False, emitDefaultExport = False\<rparr>,
     asyncCallback = True,
     completion = (\<lambda>source k. [1, 0])\<rparr>"

lemma loadSource_subdocuments_example:
  "loadSource 2 exampleLoader (ascii ''/'') aSource
     = Some (Inr \<lparr>definitions = [FragmentDefinition ''A'' [FragmentSpread ''C''],
                                   FragmentDefinition ''C'' [Field ''h'' None]]\<rparr>)
   \<and> loadSource 2 exampleLoader (ascii ''/'') bSource
     = Some (Inr \<lparr>definitions = [FragmentDefinition ''B'' [Field ''g'' None]]\<rparr>)"
  by code_simp

lemma importPaths_example: "importPaths rootSource = [ascii ''a.graphql'', ascii ''b.graphql'']"
  by code_simp

lemma rootSource_wellformed:
  "\<forall>line \<in> set (splitLines rootSource). importLine line \<noteq> Some (Inl ImportSyntaxError)"
  by code_simp

lemma unquoted_not_quotedPath: "\<not> quotedPath (ascii ''foo.graphql'')"
  by (auto simp: quotedPath_def isQuote_def ascii_def)

lemma loadSource_example:
  "loadSource 3 exampleLoader (ascii ''/'') rootSource = Some (Inr \<lparr>definitions =
     [OperationDefinition None [FragmentSpread ''A'', FragmentSpread ''B''],
      FragmentDefinition ''A'' [FragmentSpread ''C''],
      FragmentDefinition ''C'' [Field ''h'' None],
      FragmentDefinition ''B'' [Field ''g'' None]]\<rparr>)"
  by code_simp

lemma loadSchema_example:
  "map_option (map_sum id fst) (loadSchema 3 exampleLoader (getOptions exampleLoader) Map.empty)
     = Some (Inr (GraphQLSchema (ascii ''{}'')))"
  by code_simp

section \<open>Properties of the expansion\<close>

text \<open>
  C1: the expansion of a source returns a document exactly when the source parses, none
  of its import lines is malformed, the paths of its import lines resolve, the resolved
  files can be read, and the expansion of each of these files returns a document; and
  the document returned is the parsed root document with its definitions list extended:
  first the root's own definitions, then, for each import line of the source in the
  order of the lines, all the definitions of the document that the expansion of the
  imported file returns (which already holds the definitions of that file's own
  imports). A returned document is returned whatever the order in which the promises
  settle, and at every greater depth bound.
\<close>

theorem loadSource_definitions_order:
  "(loadSource (Suc fuel) env resolveContext source = Some (Inr doc)) =
     (\<exists>root files contents nodes.
        graphqlParse env source = Some root
      \<and> (\<forall>line \<in> set (splitLines source). importLine line \<noteq> Some (Inl ImportSyntaxError))
      \<and> list_all2 (\<lambda>filePath file. loaderResolve env resolveContext filePath = WithResult file)
           (importPaths source) files
      \<and> list_all2 (\<lambda>file content. fsReadFile env file = WithResult content) files contents
      \<and> list_all2 (\<lambda>(file, content) node.
                     loadSource fuel env (dirname env file) content = Some (Inr node))
           (zip files contents) nodes
      \<and> doc = root\<lparr>definitions := definitions root @ concat (map definitions nodes)\<rparr>)
   \<and> (loadSource (Suc fuel) env resolveContext source = Some (Inr doc) \<longrightarrow>
        (\<forall>order. loadSource (Suc fuel) (env\<lparr>completion := order\<rparr>) resolveContext source
           = Some (Inr doc))
      \<and> loadSource (Suc (Suc fuel)) env resolveContext source = Some (Inr doc))"
  (is "(?returned = ?described) \<and> ?stable")
proof
  show "?returned = ?described"
  proof
    assume ?returned
    then obtain root where
      parsed: "graphqlParse env source = Some root"
      and expanded: "extractImports (loadSource fuel env) env resolveContext source root
          = Some (Inr doc)"
      by (auto split: option.splits)
    from expanded obtain paths files contents nodes where
      scan: "scanImports (splitLines source) = Inr paths"
      and r: "list_all2 (\<lambda>filePath file. loaderResolve env resolveContext filePath = WithResult file)
            paths files"
      and c: "list_all2 (\<lambda>file content. fsReadFile env file = WithResult content) files contents"
      and n: "list_all2 (\<lambda>(file, content) node.
                loadSource fuel env (dirname env file) content = Some (Inr node))
              (zip files contents) nodes"
      and d: "doc = root\<lparr>definitions := definitions root @ concat (map definitions nodes)\<rparr>"
      unfolding extractImports_fulfilled by blast
    from scan have "paths = importPaths source"
      unfolding importPaths_def by (rule scanImports_Inr [THEN conjunct1])
    moreover from scan
    have "\<forall>line \<in> set (splitLines source). importLine line \<noteq> Some (Inl ImportSyntaxError)"
      by (rule scanImports_Inr [THEN conjunct2])
    ultimately show ?described using parsed r c n d by blast
  next
    assume ?described
    then obtain root files contents nodes where
      parsed: "graphqlParse env source = Some root"
      and w: "\<forall>line \<in> set (splitLines source). importLine line \<noteq> Some (Inl ImportSyntaxError)"
      and r: "list_all2 (\<lambda>filePath file. loaderResolve env resolveContext filePath = WithResult file)
            (importPaths source) files"
      and c: "list_all2 (\<lambda>file content. fsReadFile env file = WithResult content) files contents"
      and n: "list_all2 (\<lambda>(file, content) node.
                loadSource fuel env (dirname env file) content = Some (Inr node))
              (zip files contents) nodes"
      and d: "doc = root\<lparr>definitions := definitions root @ concat (map definitions nodes)\<rparr>"
      by blast
    from w have "scanImports (splitLines source) = Inr (importPaths source)"
      unfolding importPaths_def by (rule scanImports_wellformed)
    with r c n d
    have "extractImports (loadSource fuel env) env resolveContext source root = Some (Inr doc)"
      unfolding extractImports_fulfilled by blast
    with parsed show ?returned by simp
  qed
next
  show ?stable
    by (blast intro: loadSource_completion loadSource_more_fuel)
qed

theorem loadSource_definitions_order_witness:
  "loadSource 3 exampleLoader (ascii ''/'') rootSource = Some (Inr \<lparr>definitions =
     [OperationDefinition None [FragmentSpread ''A'', FragmentSpread ''B''],
      FragmentDefinition ''A'' [FragmentSpread ''C''],
      FragmentDefinition ''C'' [Field ''h'' None],
      FragmentDefinition ''B'' [Field ''g'' None]]\<rparr>)
   \<and> loadSource 3 (exampleLoader\<lparr>completion := (\<lambda>source k. [0, 1])\<rparr>) (ascii ''/'') rootSource
       = Some (Inr \<lparr>definitions =
     [OperationDefinition None [FragmentSpread ''A'', FragmentSpread ''B''],
      FragmentDefinition ''A'' [FragmentSpread ''C''],
      FragmentDefinition ''C'' [Field ''h'' None],
      FragmentDefinition ''B'' [Field ''g'' None]]\<rparr>)
   \<and> importPaths rootSource = [ascii ''a.graphql'', ascii ''b.graphql'']
   \<and> loadSource 2 exampleLoader (ascii ''/'') aSource
       = Some (Inr \<lparr>definitions = [FragmentDefinition ''A'' [FragmentSpread ''C''],
                                     FragmentDefinition ''C'' [Field ''h'' None]]\<rparr>)
   \<and> loadSource 2 exampleLoader (ascii ''/'') bSource
       = Some (Inr \<lparr>definitions = [FragmentDefinition ''B'' [Field ''g'' None]]\<rparr>)"
proof -
  let ?root = "\<lparr>definitions = [OperationDefinition None [FragmentSpread ''A'', FragmentSpread ''B'']]\<rparr>"
  let ?a = "\<lparr>definitions = [FragmentDefinition ''A'' [FragmentSpread ''C''],
                               FragmentDefinition ''C'' [Field ''h'' None]]\<rparr>"
  let ?b = "\<lparr>definitions = [FragmentDefinition ''B'' [Field ''g'' None]]\<rparr>"
  let ?doc = "?root\<lparr>definitions := definitions ?root @ concat (map definitions [?a, ?b])\<rparr>"
  note sub = loadSource_subdocuments_example
  have parsed: "graphqlParse exampleLoader rootSource = Some ?root"
    by (simp add: exampleLoader_def)
  have resolved: "list_all2
      (\<lambda>filePath file. loaderResolve exampleLoader (ascii ''/'') filePath = WithResult file)
      (importPaths rootSource) [ascii ''/a.graphql'', ascii ''/b.graphql'']"
    by (simp add: importPaths_example exampleLoader_def ascii_def)
  have read: "list_all2 (\<lambda>file content. fsReadFile exampleLoader file = WithResult content)
      [ascii ''/a.graphql'', ascii ''/b.graphql''] [aSource, bSource]"
    by (simp add: exampleLoader_def ascii_def)
  have loaded: "list_all2 (\<lambda>(file, content) node.
        loadSource 2 exampleLoader (dirname exampleLoader file) content = Some (Inr node))
      (zip [ascii ''/a.graphql'', ascii ''/b.graphql''] [aSource, bSource]) [?a, ?b]"
    using sub by (simp add: exampleLoader_def)
  have "\<exists>root files contents nodes.
        graphqlParse exampleLoader rootSource = Some root
      \<and> (\<forall>line \<in> set (splitLines rootSource). importLine line \<noteq> Some (Inl ImportSyntaxError))
      \<and> list_all2 (\<lambda>filePath file. loaderResolve exampleLoader (ascii ''/'') filePath = WithResult file)
           (importPaths rootSource) files
      \<and> list_all2 (\<lambda>file content. fsReadFile exampleLoader file = WithResult content) files contents
      \<and> list_all2 (\<lambda>(file, content) node.
                     loadSource 2 exampleLoader (dirname exampleLoader file) content = Some (Inr node))
           (zip files contents) nodes
      \<and> ?doc = root\<lparr>definitions := definitions root @ concat (map definitions nodes)\<rparr>"
    using parsed rootSource_wellformed resolved read loaded by blast
  then have run: "loadSource (Suc 2) exampleLoader (ascii ''/'') rootSource = Some (Inr ?doc)"
    by (rule loadSource_definitions_order [THEN conjunct1, THEN iffD2])
  from loadSource_definitions_order [THEN conjunct2, rule_format, OF run]
  have "loadSource (Suc 2) (exampleLoader\<lparr>completion := (\<lambda>source k. [0, 1])\<rparr>) (ascii ''/'')
      rootSource = Some (Inr ?doc)"
    by blast
  with run sub importPaths_example show ?thesis
    by (simp add: numeral_3_eq_3)
qed

text \<open>
  C4 (as amended): for a line that starts with \<^verbatim>\<open>#\<close> and whose first piece between
  single spaces after the \<^verbatim>\<open>#\<close> is \<^verbatim>\<open>import\<close>, the scan throws the import syntax
  error exactly when the path is absent or malformed: the path must be the next piece
  between single spaces (it is absent when there is no such piece or the piece is empty,
  as it is after two spaces), and it must consist of a quote character, one or more
  code units other than line terminators, and a quote character, which need not be the
  same as the opening one and may be followed by anything. When such a line is a line of
  a source that parses, the expansion of the source ends with that error. The scan of a
  source throws exactly when one of its lines does.
\<close>

theorem import_syntax_error_iff:
  assumes "splitSpaces rest = ascii ''import'' # tokens"
  shows "(importLine (0x23 # rest) = Some (Inl ImportSyntaxError)) = malformedImport tokens
       \<and> (malformedImport tokens \<and> 0x23 # rest \<in> set (splitLines source)
            \<and> graphqlParse env source = Some document
          \<longrightarrow> loadSource (Suc fuel) env resolveContext source = Some (Inl ImportSyntaxError))
       \<and> (scanImports (splitLines source) = Inl ImportSyntaxError)
           = (\<exists>line \<in> set (splitLines source). importLine line = Some (Inl ImportSyntaxError))"
proof -
  have line: "(importLine (0x23 # rest) = Some (Inl ImportSyntaxError)) = malformedImport tokens"
    using assms by (rule importLine_throws)
  have "loadSource (Suc fuel) env resolveContext source = Some (Inl ImportSyntaxError)"
    if "malformedImport tokens" and "0x23 # rest \<in> set (splitLines source)"
      and "graphqlParse env source = Some document"
    using that(2) _ that(3)
  proof (rule loadSource_throws)
    from that(1) line show "importLine (0x23 # rest) = Some (Inl ImportSyntaxError)"
      by simp
  qed
  moreover have "(scanImports (splitLines source) = Inl ImportSyntaxError)
      = (\<exists>line \<in> set (splitLines source). importLine line = Some (Inl ImportSyntaxError))"
    by (simp add: scanImports_Inl)
  ultimately show ?thesis using line by blast
qed

theorem import_syntax_error_iff_witness:
  "splitSpaces (ascii ''import foo.graphql'') = [ascii ''import'', ascii ''foo.graphql'']
   \<and> malformedImport [ascii ''foo.graphql'']
   \<and> importLine (ascii ''#import foo.graphql'') = Some (Inl ImportSyntaxError)
   \<and> ascii ''#import foo.graphql'' \<in> set (splitLines unquotedSource)
   \<and> graphqlParse exampleLoader unquotedSource
       = Some \<lparr>definitions = [OperationDefinition None [FragmentSpread ''F'']]\<rparr>
   \<and> loadSource 1 exampleLoader (ascii ''/'') unquotedSource = Some (Inl ImportSyntaxError)"
proof -
  have split: "splitSpaces (ascii ''import foo.graphql'') = ascii ''import'' # [ascii ''foo.graphql'']"
    by code_simp
  have malformed: "malformedImport [ascii ''foo.graphql'']"
    by (simp add: malformedImport_def unquoted_not_quotedPath)
  have line: "0x23 # ascii ''import foo.graphql'' \<in> set (splitLines unquotedSource)"
    by code_simp
  have parsed: "graphqlParse exampleLoader unquotedSource
      = Some \<lparr>definitions = [OperationDefinition None [FragmentSpread ''F'']]\<rparr>"
    by code_simp
  have same: "ascii ''#import foo.graphql'' = 0x23 # ascii ''import foo.graphql''"
    by (simp add: ascii_def)
  from import_syntax_error_iff [OF split, of unquotedSource exampleLoader
      "\<lparr>definitions = [OperationDefinition None [FragmentSpread ''F'']]\<rparr>" 0 "ascii ''/''"]
    malformed line parsed split
  show ?thesis unfolding same by simp
qed

text \<open>
  The claim as the specification states it fails on four lines, each of which starts
  with \<^verbatim>\<open>#import\<close> and a space. The path of \<^verbatim>\<open>#import "foo.graphql'\<close> is not enclosed in
  matching quotes, and neither is that of \<^verbatim>\<open>#import "foo.graphql"x\<close>, yet the scan
  accepts both with the path \<^verbatim>\<open>foo.graphql\<close> and the expansion returns a document. The
  second whitespace-delimited token of the line with a line separator between the
  quotes, and that of \<^verbatim>\<open>#import  "foo.graphql"\<close> with its two spaces, is enclosed in
  matching quotes, yet the scan throws the import syntax error and the expansion ends
  with it.
\<close>

theorem quoting_not_as_specified:
  "(splitSpaces (ascii ''import '' @ mismatchedToken) = [ascii ''import'', mismatchedToken]
      \<and> \<not> wellFormedAsSpecified (ascii ''import '' @ mismatchedToken)
      \<and> importLine (0x23 # ascii ''import '' @ mismatchedToken) = Some (Inr (ascii ''foo.graphql''))
      \<and> loadSource 2 exampleLoader (ascii ''/'') mismatchedSource
          = Some (Inr \<lparr>definitions = [OperationDefinition None [FragmentSpread ''F''],
                                        FragmentDefinition ''F'' [Field ''f'' None]]\<rparr>))
   \<and> (splitSpaces (ascii ''import '' @ trailingToken) = [ascii ''import'', trailingToken]
      \<and> \<not> wellFormedAsSpecified (ascii ''import '' @ trailingToken)
      \<and> importLine (0x23 # ascii ''import '' @ trailingToken) = Some (Inr (ascii ''foo.graphql''))
      \<and> loadSource 2 exampleLoader (ascii ''/'') trailingSource
          = Some (Inr \<lparr>definitions = [OperationDefinition None [FragmentSpread ''F''],
                                        FragmentDefinition ''F'' [Field ''f'' None]]\<rparr>))
   \<and> (splitSpaces (ascii ''import '' @ separatorToken) = [ascii ''import'', separatorToken]
      \<and> wellFormedAsSpecified (ascii ''import '' @ separatorToken)
      \<and> importLine (0x23 # ascii ''import '' @ separatorToken) = Some (Inl ImportSyntaxError)
      \<and> loadSource 2 exampleLoader (ascii ''/'') separatorSource = Some (Inl ImportSyntaxError))
   \<and> (splitSpaces doubleSpaceRest = [ascii ''import'', [], quotedToken]
      \<and> whitespaceTokens doubleSpaceRest = [ascii ''import'', quotedToken]
      \<and> wellFormedAsSpecified doubleSpaceRest
      \<and> importLine (0x23 # doubleSpaceRest) = Some (Inl ImportSyntaxError)
      \<and> loadSource 2 exampleLoader (ascii ''/'') doubleSpaceSource = Some (Inl ImportSyntaxError))"
  by code_simp

section \<open>Properties of the loader\<close>

text \<open>
  C9: when the loader has its asynchronous callback, validation is switched on, the
  schema is loaded, the source is expanded, and the validator returns at least one error
  for the final document (deduplicated, and pruned when that option is set), then each
  of these errors is emitted, in order, and the loader still calls \<^verbatim>\<open>done\<close> with the
  module text: the export prefix followed by the printed document as a JSON string,
  minified when that option is set.
\<close>

theorem validation_errors_not_fatal:
  assumes "asyncCallback this"
      and "validate (getOptions this)"
      and "loadSchema fuel this (getOptions this) cache = Some (Inr (given, cache'))"
      and "loadSource fuel this (loaderContext this) source = Some (Inr loaded)"
      and "document =
             (if removeUnusedFragmentsOption (getOptions this)
              then removeUnusedFragments (removeDuplicateFragments loaded)
              else removeDuplicateFragments loaded)"
      and "graphqlValidate this given document \<noteq> []"
  shows "loader fuel this cache source =
           Some \<lparr>emittedErrors = graphqlValidate this given document,
                  outcome = Done (Inr
                    ((if emitDefaultExport (getOptions this) then ''export default ''
                      else ''module.exports = '')
                     @ (if minify (getOptions this)
                        then minifyDocumentString this (jsonStringify this (graphqlPrint this document))
                        else jsonStringify this (graphqlPrint this document)))),
                  schemasAfter = cache'\<rparr>"
proof -
  have options: "loadOptions fuel this cache =
      Some (Inr (\<lparr>loadedSchema = Some given,
                   loadedRemoveUnusedFragments = removeUnusedFragmentsOption (getOptions this),
                   loadedMinify = minify (getOptions this),
                   loadedEmitDefaultExport = emitDefaultExport (getOptions this)\<rparr>, cache'))"
    using assms(2,3) by (simp add: loadOptions_def await_def Let_def)
  show ?thesis
    using assms(1,4,5) by (simp add: loader_def options Let_def)
qed

theorem validation_errors_not_fatal_witness:
  "asyncCallback exampleLoader \<and> validate (getOptions exampleLoader)
   \<and> graphqlValidate exampleLoader (GraphQLSchema (ascii ''{}''))
        (removeUnusedFragments (removeDuplicateFragments \<lparr>definitions =
           [OperationDefinition None [FragmentSpread ''A'', FragmentSpread ''B''],
            FragmentDefinition ''A'' [FragmentSpread ''C''],
            FragmentDefinition ''C'' [Field ''h'' None],
            FragmentDefinition ''B'' [Field ''g'' None]]\<rparr>))
       = [''Cannot query field g on type T'']
   \<and> map_option emittedErrors (loader 3 exampleLoader Map.empty rootSource)
       = Some [''Cannot query field g on type T'']
   \<and> map_option outcome (loader 3 exampleLoader Map.empty rootSource)
       = Some (Done (Inr ''module.exports = printed''))"
proof -
  let ?loaded = "\<lparr>definitions =
           [OperationDefinition None [FragmentSpread ''A'', FragmentSpread ''B''],
            FragmentDefinition ''A'' [FragmentSpread ''C''],
            FragmentDefinition ''C'' [Field ''h'' None],
            FragmentDefinition ''B'' [Field ''g'' None]]\<rparr>"
  let ?document = "removeUnusedFragments (removeDuplicateFragments ?loaded)"
  let ?given = "GraphQLSchema (ascii ''{}'')"
  have async: "asyncCallback exampleLoader" by (simp add: exampleLoader_def)
  have enabled: "validate (getOptions exampleLoader)" by (simp add: exampleLoader_def)
  obtain cache' where schema:
    "loadSchema 3 exampleLoader (getOptions exampleLoader) Map.empty
       = Some (Inr (?given, cache'))"
    using loadSchema_example
    by (cases "loadSchema 3 exampleLoader (getOptions exampleLoader) Map.empty")
       (auto simp: map_sum_def split: sum.splits)
  have load: "loadSource 3 exampleLoader (loaderContext exampleLoader) rootSource
      = Some (Inr ?loaded)"
    using loadSource_example by (simp add: exampleLoader_def)
  have prune: "removeUnusedFragmentsOption (getOptions exampleLoader)"
    by (simp add: exampleLoader_def)
  have document: "?document =
      (if removeUnusedFragmentsOption (getOptions exampleLoader)
       then removeUnusedFragments (removeDuplicateFragments ?loaded)
       else removeDuplicateFragments ?loaded)"
    using prune by simp
  have errors: "graphqlValidate exampleLoader ?given ?document
      = [''Cannot query field g on type T'']"
    by (simp add: exampleLoader_def)
  then have some: "graphqlValidate exampleLoader ?given ?document \<noteq> []"
    by simp
  have "loader 3 exampleLoader Map.empty rootSource =
      Some \<lparr>emittedErrors = graphqlValidate exampleLoader ?given ?document,
             outcome = Done (Inr
               ((if emitDefaultExport (getOptions exampleLoader) then ''export default ''
                 else ''module.exports = '')
                @ (if minify (getOptions exampleLoader)
                   then minifyDocumentString exampleLoader
                          (jsonStringify exampleLoader (graphqlPrint exampleLoader ?document))
                   else jsonStringify exampleLoader (graphqlPrint exampleLoader ?document)))),
             schemasAfter = cache'\<rparr>"
    using async enabled schema load document some
    by (rule validation_errors_not_fatal)
  then show ?thesis
    using async enabled errors by (simp add: exampleLoader_def)
qed

end
